theory Spec2Isabelle
  imports Main
begin

section \<open>JavaScript strings\<close>

text \<open>
  The program is TypeScript. A string is modelled as a \<^typ>\<open>string\<close>, one \<^typ>\<open>char\<close> per
  code unit, restricted to the code units 0 to 255 (Latin-1). The character classes
  below are the ECMAScript ones cut down to that range: the line terminators are LF and
  CR, white space is TAB, LF, VT, FF, CR, SPACE and NBSP.
\<close>

definition code_unit :: "char \<Rightarrow> nat" where
  "code_unit c = of_char c"

definition is_line_terminator :: "char \<Rightarrow> bool" where
  "is_line_terminator c = (code_unit c = 10 \<or> code_unit c = 13)"

definition is_space :: "char \<Rightarrow> bool" where
  "is_space c = ((9 \<le> code_unit c \<and> code_unit c \<le> 13) \<or> code_unit c = 32 \<or> code_unit c = 160)"

definition is_digit :: "char \<Rightarrow> bool" where
  "is_digit c = (48 \<le> code_unit c \<and> code_unit c \<le> 57)"

definition is_word :: "char \<Rightarrow> bool" where
  "is_word c = ((65 \<le> code_unit c \<and> code_unit c \<le> 90) \<or> (97 \<le> code_unit c \<and> code_unit c \<le> 122)
                \<or> is_digit c \<or> code_unit c = 95)"

definition to_upper :: "char \<Rightarrow> char" where
  \<comment> \<open>\<open>toUpperCase\<close> on one code unit, where the result is again one Latin-1 code unit\<close>
  "to_upper c = (if (97 \<le> code_unit c \<and> code_unit c \<le> 122) \<or> (224 \<le> code_unit c \<and> code_unit c \<le> 254 \<and> code_unit c \<noteq> 247)
                 then char_of (code_unit c - 32) else c)"

definition to_lower :: "char \<Rightarrow> char" where
  "to_lower c = (if (65 \<le> code_unit c \<and> code_unit c \<le> 90) \<or> (192 \<le> code_unit c \<and> code_unit c \<le> 222 \<and> code_unit c \<noteq> 215)
                 then char_of (code_unit c + 32) else c)"

definition toLowerCase :: "string \<Rightarrow> string" where
  "toLowerCase s = map to_lower s"

definition trim :: "string \<Rightarrow> string" where
  "trim s = rev (dropWhile is_space (rev (dropWhile is_space s)))"

fun startsWith :: "string \<Rightarrow> string \<Rightarrow> bool" where
  "startsWith s [] = True"
| "startsWith [] (p # ps) = False"
| "startsWith (c # cs) (p # ps) = (c = p \<and> startsWith cs ps)"

definition endsWith :: "string \<Rightarrow> string \<Rightarrow> bool" where
  "endsWith s p = startsWith (rev s) (rev p)"

fun includes_str :: "string \<Rightarrow> string \<Rightarrow> bool" where
  "includes_str [] p = (p = [])"
| "includes_str (c # cs) p = (startsWith (c # cs) p \<or> includes_str cs p)"

text \<open>
  \<open>s.split(sep)\<close> for a non-empty separator: the text is cut at every occurrence of the
  separator found scanning from the left, occurrences do not overlap, and the result
  always has at least one element. \<open>skip\<close> counts the characters of a separator still
  to be dropped; \<open>acc\<close> is the current piece, reversed.
\<close>

fun split_go :: "string \<Rightarrow> nat \<Rightarrow> string \<Rightarrow> string \<Rightarrow> string list" where
  "split_go sep skip acc [] = [rev acc]"
| "split_go sep (Suc k) acc (c # cs) = split_go sep k acc cs"
| "split_go sep 0 acc (c # cs) =
     (if sep \<noteq> [] \<and> startsWith (c # cs) sep
      then rev acc # split_go sep (length sep - 1) [] cs
      else split_go sep 0 (c # acc) cs)"

definition split_str :: "string \<Rightarrow> string \<Rightarrow> string list" where
  "split_str s sep = split_go sep 0 [] s"

fun join_str :: "string list \<Rightarrow> string \<Rightarrow> string" where
  "join_str [] sep = []"
| "join_str [x] sep = x"
| "join_str (x # y # ys) sep = x @ sep @ join_str (y # ys) sep"

section \<open>Regular expressions\<close>

text \<open>
  The program finds everything it reads in a reply with regular expressions, and builds
  five of them at run time from a field name that it pastes, unescaped, in front of a
  fixed pattern text. The model therefore keeps the pattern \<^emph>\<open>text\<close> of the source and
  gives it its meaning with a compiler and a backtracking matcher for the fragment of
  the ECMAScript syntax the program uses. A pattern that ECMAScript rejects compiles to
  the \<open>SyntaxError\<close> that \<open>new RegExp\<close> throws; a pattern outside the fragment compiles
  to \<open>OutsideFragment\<close>.

  A HOL string literal cannot contain a backslash, so the pattern texts below write
  \<open>%\<close> for it and go through \<open>bsl\<close>; none of the source's patterns contains a \<open>%\<close>.
\<close>

definition BSL :: char where
  "BSL = CHR 0x5C"

definition bsl :: "string \<Rightarrow> string" where
  "bsl s = map (\<lambda>c. if c = CHR ''%'' then BSL else c) s"

datatype citem = CChar char | CRange char char | CSpace bool | CWord bool | CDigit bool

datatype regex =
    REmpty
  | RChar char
  | RAny
  | RClass bool "citem list"
  | RSeq regex regex
  | RAlt regex regex
  | RStar bool regex
  | RPlus bool regex
  | ROpt bool regex
  | RGroup nat regex
  | RLook bool regex
  | RBol
  | REol
  | RWordB bool

text \<open>
  The exceptions of the model. \<open>SyntaxError\<close>, \<open>TypeError\<close> and \<open>Error\<close> are the JavaScript
  errors of those names with their message (for a \<open>SyntaxError\<close> of \<open>new RegExp\<close>, the
  reason it ends with); \<open>Rejected\<close> is a rejection of the language model's promise, with
  the text of the value it rejects with; \<open>OutsideFragment\<close> marks a pattern that the
  compiler below does not cover.
\<close>

datatype exn = TypeError string | SyntaxError string | Error string | Rejected string
  | OutsideFragment string

record reflags =
  ignoreCase :: bool
  multiline :: bool
  dotAll :: bool

subsection \<open>Compiling a pattern text\<close>

datatype quant = QStar | QPlus | QOpt

datatype gkind = KTop | KCap nat | KNon | KLook bool

datatype token =
    TAtom regex
  | TAssert regex
  | TQuant quant bool
  | TOpenCap
  | TOpen gkind
  | TClose
  | TBar
  | TErr exn

definition class_escape :: "char \<Rightarrow> citem option" where
  "class_escape c =
     (if c = CHR ''s'' then Some (CSpace True) else if c = CHR ''S'' then Some (CSpace False)
      else if c = CHR ''w'' then Some (CWord True) else if c = CHR ''W'' then Some (CWord False)
      else if c = CHR ''d'' then Some (CDigit True) else if c = CHR ''D'' then Some (CDigit False)
      else if c = CHR ''n'' then Some (CChar (CHR 0x0A)) else if c = CHR ''r'' then Some (CChar (CHR 0x0D))
      else if c = CHR ''t'' then Some (CChar (CHR 0x09)) else if c = CHR ''v'' then Some (CChar (CHR 0x0B))
      else if c = CHR ''f'' then Some (CChar (CHR 0x0C))
      else if is_word c then None
      else Some (CChar c))"

definition atom_of_item :: "citem \<Rightarrow> regex" where
  "atom_of_item i = (case i of CChar c \<Rightarrow> RChar c | _ \<Rightarrow> RClass False [i])"

fun lex :: "string \<Rightarrow> token list"
and lex_quant :: "quant \<Rightarrow> string \<Rightarrow> token list"
and lex_class :: "bool \<Rightarrow> citem list \<Rightarrow> string \<Rightarrow> token list" where
  "lex [] = []"
| "lex (c # cs) =
     (if c = BSL then
        (case cs of
           [] \<Rightarrow> [TErr (SyntaxError ''backslash at end of pattern'')]
         | e # es \<Rightarrow>
             (if e = CHR ''b'' then TAssert (RWordB True) # lex es
              else if e = CHR ''B'' then TAssert (RWordB False) # lex es
              else (case class_escape e of
                      Some i \<Rightarrow> TAtom (atom_of_item i) # lex es
                    | None \<Rightarrow> [TErr (OutsideFragment ''escape'')])))
      else if c = CHR ''['' then
        (case cs of
           CHR ''^'' # es \<Rightarrow> lex_class True [] es
         | _ \<Rightarrow> lex_class False [] cs)
      else if c = CHR ''('' then
        (case cs of
           CHR ''?'' # CHR '':'' # es \<Rightarrow> TOpen KNon # lex es
         | CHR ''?'' # CHR ''='' # es \<Rightarrow> TOpen (KLook True) # lex es
         | CHR ''?'' # CHR ''!'' # es \<Rightarrow> TOpen (KLook False) # lex es
         | CHR ''?'' # CHR ''<'' # es \<Rightarrow> [TErr (OutsideFragment ''lookbehind or named group'')]
         | CHR ''?'' # es \<Rightarrow> [TErr (SyntaxError ''Invalid group'')]
         | _ \<Rightarrow> TOpenCap # lex cs)
      else if c = CHR '')'' then TClose # lex cs
      else if c = CHR ''|'' then TBar # lex cs
      else if c = CHR ''*'' then lex_quant QStar cs
      else if c = CHR ''+'' then lex_quant QPlus cs
      else if c = CHR ''?'' then lex_quant QOpt cs
      else if c = CHR ''.'' then TAtom RAny # lex cs
      else if c = CHR ''^'' then TAssert RBol # lex cs
      else if c = CHR ''$'' then TAssert REol # lex cs
      else if c = CHR ''{'' then [TErr (OutsideFragment ''brace'')]
      else TAtom (RChar c) # lex cs)"
| "lex_quant q [] = [TQuant q True]"
| "lex_quant q (c # cs) =
     (if c = CHR ''?'' then TQuant q False # lex cs else TQuant q True # lex (c # cs))"
| "lex_class neg acc [] = [TErr (SyntaxError ''Unterminated character class'')]"
| "lex_class neg acc (c # cs) =
     (if c = CHR '']'' then TAtom (RClass neg (rev acc)) # lex cs
      else if c = BSL then
        (case cs of
           [] \<Rightarrow> [TErr (SyntaxError ''backslash at end of pattern'')]
         | e # es \<Rightarrow>
             (case class_escape e of
                Some i \<Rightarrow> lex_class neg (i # acc) es
              | None \<Rightarrow> [TErr (OutsideFragment ''escape'')]))
      else
        (case cs of
           CHR ''-'' # hi # es \<Rightarrow>
             (if hi = CHR '']'' then lex_class neg (CChar c # acc) cs
              else if hi = BSL then [TErr (OutsideFragment ''range'')]
              else if code_unit hi < code_unit c then [TErr (SyntaxError ''Range out of order in character class'')]
              else lex_class neg (CRange c hi # acc) es)
         | _ \<Rightarrow> lex_class neg (CChar c # acc) cs))"


text \<open>
  The parser reads the tokens from left to right with a stack of open groups. A frame
  holds the kind of its group, the alternatives already closed by a \<open>|\<close> and the terms
  of the current alternative, both in reverse. Capturing groups are numbered by their
  opening parenthesis, from 1.
\<close>

datatype term_kind = Quantifiable | Quantified | Assertion | Lookaround

type_synonym frame = "gkind \<times> regex list \<times> (regex \<times> term_kind) list"

definition build_seq :: "(regex \<times> term_kind) list \<Rightarrow> regex" where
  "build_seq items = foldl (\<lambda>acc it. RSeq (fst it) acc) REmpty items"

definition build_alt :: "regex list \<Rightarrow> regex \<Rightarrow> regex" where
  "build_alt alts lst = foldl (\<lambda>acc a. RAlt a acc) lst alts"

definition close_frame :: "frame \<Rightarrow> regex \<times> term_kind" where
  "close_frame f =
     (case f of (k, alts, cur) \<Rightarrow>
        (let body = build_alt alts (build_seq cur) in
         case k of
           KTop \<Rightarrow> (body, Quantifiable)
         | KCap i \<Rightarrow> (RGroup i body, Quantifiable)
         | KNon \<Rightarrow> (body, Quantifiable)
         | KLook b \<Rightarrow> (RLook b body, Lookaround)))"

definition apply_quant :: "quant \<Rightarrow> bool \<Rightarrow> regex \<Rightarrow> regex" where
  "apply_quant q greedy r =
     (case q of QStar \<Rightarrow> RStar greedy r | QPlus \<Rightarrow> RPlus greedy r | QOpt \<Rightarrow> ROpt greedy r)"

fun parse :: "nat \<Rightarrow> frame list \<Rightarrow> token list \<Rightarrow> exn + regex" where
  "parse n stk [] =
     (case stk of
        [f] \<Rightarrow> Inr (fst (close_frame f))
      | _ \<Rightarrow> Inl (SyntaxError ''Unterminated group''))"
| "parse n [] (t # ts) = Inl (SyntaxError ''Unmatched closing parenthesis'')"
| "parse n ((k, alts, cur) # stk) (t # ts) =
     (case t of
        TErr e \<Rightarrow> Inl e
      | TAtom r \<Rightarrow> parse n ((k, alts, (r, Quantifiable) # cur) # stk) ts
      | TAssert r \<Rightarrow> parse n ((k, alts, (r, Assertion) # cur) # stk) ts
      | TBar \<Rightarrow> parse n ((k, build_seq cur # alts, []) # stk) ts
      | TOpenCap \<Rightarrow> parse (Suc n) ((KCap (Suc n), [], []) # (k, alts, cur) # stk) ts
      | TOpen g \<Rightarrow> parse n ((g, [], []) # (k, alts, cur) # stk) ts
      | TClose \<Rightarrow>
          (case stk of
             [] \<Rightarrow> Inl (SyntaxError ''Unmatched closing parenthesis'')
           | (k', alts', cur') # stk' \<Rightarrow>
               parse n ((k', alts', close_frame (k, alts, cur) # cur') # stk') ts)
      | TQuant q greedy \<Rightarrow>
          (case cur of
             [] \<Rightarrow> Inl (SyntaxError ''Nothing to repeat'')
           | (r, Quantifiable) # cur' \<Rightarrow>
               parse n ((k, alts, (apply_quant q greedy r, Quantified) # cur') # stk) ts
           | (r, Lookaround) # cur' \<Rightarrow> Inl (OutsideFragment ''quantified lookahead'')
           | _ \<Rightarrow> Inl (SyntaxError ''Nothing to repeat'')))"

definition compile :: "string \<Rightarrow> exn + regex" where
  \<comment> \<open>\<open>new RegExp(src)\<close>, and a regular expression literal\<close>
  "compile src = parse 0 [(KTop, [], [])] (lex src)"

subsection \<open>Matching\<close>

text \<open>
  A matcher state is the character before the current position (none at the start of
  the text), the text from the current position on, and the captures so far. \<open>matches\<close>
  lists the states a pattern can end in from a given state, in the order in which a
  backtracking matcher tries them, so the head of the list is the match it reports.
\<close>

type_synonym mstate = "char option \<times> string \<times> (nat \<times> string) list"

definition citem_match :: "citem \<Rightarrow> char \<Rightarrow> bool" where
  "citem_match i c =
     (case i of
        CChar a \<Rightarrow> c = a
      | CRange lo hi \<Rightarrow> code_unit lo \<le> code_unit c \<and> code_unit c \<le> code_unit hi
      | CSpace b \<Rightarrow> is_space c = b
      | CWord b \<Rightarrow> is_word c = b
      | CDigit b \<Rightarrow> is_digit c = b)"

definition class_match :: "reflags \<Rightarrow> bool \<Rightarrow> citem list \<Rightarrow> char \<Rightarrow> bool" where
  "class_match fl neg items c =
     (list_ex (\<lambda>i. citem_match i c \<or>
                  (ignoreCase fl \<and> (citem_match i (to_upper c) \<or> citem_match i (to_lower c)))) items
      \<noteq> neg)"

definition char_match :: "reflags \<Rightarrow> char \<Rightarrow> char \<Rightarrow> bool" where
  "char_match fl a c = (if ignoreCase fl then to_upper a = to_upper c else a = c)"

definition step_char :: "(char \<Rightarrow> bool) \<Rightarrow> mstate \<Rightarrow> mstate list" where
  "step_char ok st =
     (case st of (p, s, caps) \<Rightarrow>
        (case s of [] \<Rightarrow> [] | c # cs \<Rightarrow> if ok c then [(Some c, cs, caps)] else []))"

definition at_word :: "char option \<Rightarrow> bool" where
  "at_word p = (case p of None \<Rightarrow> False | Some c \<Rightarrow> is_word c)"

definition at_terminator :: "char option \<Rightarrow> bool" where
  "at_terminator p = (case p of None \<Rightarrow> False | Some c \<Rightarrow> is_line_terminator c)"

definition next_char :: "mstate \<Rightarrow> char option" where
  "next_char st = (case fst (snd st) of [] \<Rightarrow> None | c # cs \<Rightarrow> Some c)"

fun groups :: "regex \<Rightarrow> nat list" where
  "groups (RSeq a b) = groups a @ groups b"
| "groups (RAlt a b) = groups a @ groups b"
| "groups (RStar g r) = groups r"
| "groups (RPlus g r) = groups r"
| "groups (ROpt g r) = groups r"
| "groups (RGroup i r) = i # groups r"
| "groups (RLook b r) = groups r"
| "groups r = []"

definition clear_caps :: "nat list \<Rightarrow> mstate \<Rightarrow> mstate" where
  "clear_caps gs st = (case st of (p, s, caps) \<Rightarrow> (p, s, filter (\<lambda>e. fst e \<notin> set gs) caps))"

text \<open>
  \<open>iter\<close> is the repetition of a quantifier: \<open>f\<close> matches the quantified term once, an
  iteration that consumes nothing is dropped (the empty check of ECMAScript), so the
  text left bounds the number of iterations and serves as the recursion's fuel. A
  greedy quantifier tries one more iteration before it tries to stop, a lazy one the
  other way round.
\<close>

fun iter :: "bool \<Rightarrow> (mstate \<Rightarrow> mstate list) \<Rightarrow> string \<Rightarrow> mstate \<Rightarrow> mstate list" where
  "iter greedy f [] st = [st]"
| "iter greedy f (x # fuel) st =
     (let more = concat (map (\<lambda>st'. if length (fst (snd st')) < length (fst (snd st))
                                     then iter greedy f fuel st' else []) (f st))
      in if greedy then more @ [st] else st # more)"

primrec matches :: "reflags \<Rightarrow> regex \<Rightarrow> mstate \<Rightarrow> mstate list" where
  "matches fl REmpty st = [st]"
| "matches fl (RChar a) st = step_char (char_match fl a) st"
| "matches fl RAny st = step_char (\<lambda>c. dotAll fl \<or> \<not> is_line_terminator c) st"
| "matches fl (RClass neg items) st = step_char (class_match fl neg items) st"
| "matches fl (RSeq a b) st = concat (map (matches fl b) (matches fl a st))"
| "matches fl (RAlt a b) st = matches fl a st @ matches fl b st"
| "matches fl (RStar greedy r) st =
     iter greedy (\<lambda>s. matches fl r (clear_caps (groups r) s)) (fst (snd st)) st"
| "matches fl (RPlus greedy r) st =
     concat (map (\<lambda>s. iter greedy (\<lambda>s. matches fl r (clear_caps (groups r) s)) (fst (snd s)) s)
                 (matches fl r (clear_caps (groups r) st)))"
| "matches fl (ROpt greedy r) st =
     (let once = filter (\<lambda>s. length (fst (snd s)) < length (fst (snd st)))
                        (matches fl r (clear_caps (groups r) st))
      in if greedy then once @ [st] else st # once)"
| "matches fl (RGroup i r) st =
     map (\<lambda>s. (fst s, fst (snd s),
                (i, take (length (fst (snd st)) - length (fst (snd s))) (fst (snd st))) # snd (snd s)))
         (matches fl r st)"
| "matches fl (RLook positive r) st =
     (case matches fl r st of
        [] \<Rightarrow> if positive then [] else [st]
      | s # ss \<Rightarrow> if positive then [(fst st, fst (snd st), snd (snd s))] else [])"
| "matches fl RBol st =
     (if fst st = None \<or> (multiline fl \<and> at_terminator (fst st)) then [st] else [])"
| "matches fl REol st =
     (if fst (snd st) = [] \<or> (multiline fl \<and> at_terminator (next_char st)) then [st] else [])"
| "matches fl (RWordB b) st =
     (if (at_word (fst st) \<noteq> at_word (next_char st)) = b then [st] else [])"

text \<open>
  \<open>search\<close> is the unanchored search of \<open>RegExp.prototype.exec\<close>: the leftmost start
  position at which the pattern matches, and there the first match in backtracking
  order. It returns the text from the start of the match, the text after the match and
  the captures.
\<close>

fun search :: "reflags \<Rightarrow> regex \<Rightarrow> char option \<Rightarrow> string \<Rightarrow> (string \<times> string \<times> (nat \<times> string) list) option" where
  "search fl re p s =
     (case matches fl re (p, s, []) of
        m # ms \<Rightarrow> Some (s, fst (snd m), snd (snd m))
      | [] \<Rightarrow> (case s of [] \<Rightarrow> None | c # cs \<Rightarrow> search fl re (Some c) cs))"

definition str_match :: "string \<Rightarrow> reflags \<Rightarrow> regex \<Rightarrow> (nat \<rightharpoonup> string) option" where
  \<comment> \<open>\<open>s.match(re)\<close> for a pattern without the \<open>g\<close> flag: \<open>None\<close> is \<open>null\<close>, and the result
      maps a group that took part in the match to its text (\<open>match[i]\<close>)\<close>
  "str_match s fl re = map_option (\<lambda>m. map_of (snd (snd m))) (search fl re None s)"

text \<open>
  \<open>s.replace(re, '')\<close> for a pattern with the \<open>g\<close> flag: every match, found from the
  left, is deleted. \<open>skip\<close> counts the characters of the current match still to be
  dropped.
\<close>

fun delete_go :: "reflags \<Rightarrow> regex \<Rightarrow> nat \<Rightarrow> char option \<Rightarrow> string \<Rightarrow> string" where
  "delete_go fl re skip p [] = []"
| "delete_go fl re (Suc k) p (c # cs) = delete_go fl re k (Some c) cs"
| "delete_go fl re 0 p (c # cs) =
     (case matches fl re (p, c # cs, []) of
        [] \<Rightarrow> c # delete_go fl re 0 (Some c) cs
      | m # ms \<Rightarrow>
          (let n = length (c # cs) - length (fst (snd m)) in
           if n = 0 then c # delete_go fl re 0 (Some c) cs
           else delete_go fl re (n - 1) (Some c) cs))"

definition delete_all :: "string \<Rightarrow> reflags \<Rightarrow> regex \<Rightarrow> string" where
  "delete_all s fl re = delete_go fl re 0 None s"


definition regex_literal :: "string \<Rightarrow> regex" where
  \<comment> \<open>a regular expression literal of the source; each one compiles (\<open>literals_compile\<close>
      below), so the second branch is never taken\<close>
  "regex_literal src = (case compile src of Inr re \<Rightarrow> re | Inl e \<Rightarrow> REmpty)"

definition flags_none :: reflags where
  "flags_none = \<lparr>ignoreCase = False, multiline = False, dotAll = False\<rparr>"

definition flags_m :: reflags where
  "flags_m = \<lparr>ignoreCase = False, multiline = True, dotAll = False\<rparr>"

definition flags_i :: reflags where
  "flags_i = \<lparr>ignoreCase = True, multiline = False, dotAll = False\<rparr>"

definition flags_is :: reflags where
  "flags_is = \<lparr>ignoreCase = True, multiline = False, dotAll = True\<rparr>"

section \<open>Values and the JavaScript runtime\<close>

text \<open>
  A value is \<open>null\<close>, a boolean, a number, a string, an array or an object. Numbers are
  IEEE doubles in JavaScript; the model leaves their type \<open>'n\<close> open and takes the
  built-in functions that produce, read and print them (\<open>Number\<close>, \<open>parseFloat\<close>,
  \<open>parseInt\<close>, \<open>JSON.parse\<close>, \<open>JSON.stringify\<close>, \<open>String\<close>) as a parameter, the
  runtime. \<open>None\<close> stands for \<open>NaN\<close> in the first three and for the \<open>SyntaxError\<close> that
  \<open>JSON.parse\<close> throws. \<open>not_a_function\<close> is the text of the \<open>TypeError\<close> the engine
  raises when the program calls \<open>undefined\<close>.
\<close>

datatype 'n jsval = Null | Bool bool | Num 'n | Str string | Arr "'n jsval list"
  | Obj "(string \<times> 'n jsval) list"

record 'n runtime =
  Number :: "string \<Rightarrow> 'n option"
  parseFloat :: "string \<Rightarrow> 'n option"
  parseInt :: "string \<Rightarrow> 'n option"
  JSON_parse :: "string \<Rightarrow> 'n jsval option"
  JSON_stringify :: "'n jsval \<Rightarrow> string"
  String_of :: "'n jsval \<Rightarrow> string"
  num_truthy :: "'n \<Rightarrow> bool"
  not_a_function :: string

definition truthy :: "'n runtime \<Rightarrow> 'n jsval option \<Rightarrow> bool" where
  \<comment> \<open>\<open>None\<close> is \<open>undefined\<close>\<close>
  "truthy rt v =
     (case v of
        None \<Rightarrow> False
      | Some Null \<Rightarrow> False
      | Some (Bool b) \<Rightarrow> b
      | Some (Num n) \<Rightarrow> num_truthy rt n
      | Some (Str s) \<Rightarrow> s \<noteq> []
      | Some _ \<Rightarrow> True)"

text \<open>
  An object is the list of its own enumerable properties in the order of
  \<open>Object.keys\<close>, which is the order of creation for keys that are not array indices;
  the names of fields and tools are taken not to be array indices. \<open>obj_set\<close> is the
  assignment \<open>o[k] = v\<close> to an own property; \<open>obj_assign\<close> is the assignment to a plain
  object created by \<open>{}\<close>, where the key \<open>__proto__\<close> is the accessor inherited from
  \<open>Object.prototype\<close> and creates no own property.
\<close>

fun obj_set :: "(string \<times> 'a) list \<Rightarrow> string \<Rightarrow> 'a \<Rightarrow> (string \<times> 'a) list" where
  "obj_set [] k v = [(k, v)]"
| "obj_set ((k', v') # kvs) k v = (if k' = k then (k, v) # kvs else (k', v') # obj_set kvs k v)"

definition obj_assign :: "(string \<times> 'a) list \<Rightarrow> string \<Rightarrow> 'a \<Rightarrow> (string \<times> 'a) list" where
  "obj_assign obj k v = (if k = ''__proto__'' then obj else obj_set obj k v)"

definition keys :: "(string \<times> 'a) list \<Rightarrow> string list" where
  "keys obj = map fst obj"

section \<open>Signatures (core/signature.ts)\<close>

record FieldConfig =
  description :: string
  prefix :: "string option"
  field_type :: "string option"
  required :: "bool option"

record signature_class =
  inputFields :: "(string \<times> FieldConfig) list"
  outputFields :: "(string \<times> FieldConfig) list"

datatype signature = StringSignature string | ClassSignature signature_class

record ParsedSignature =
  inputs :: "string list"
  outputs :: "string list"
  types :: "(string \<times> string) list"

definition parseFields :: "string \<Rightarrow> (string \<times> string) list" where
  \<comment> \<open>the local function \<open>parseFields\<close> of \<open>parseStringSignature\<close>; \<open>type || 'string'\<close>
      replaces an absent and an empty type\<close>
  "parseFields part =
     map (\<lambda>field.
            (case map trim (split_str (trim field) '':'') of
               [] \<Rightarrow> ([], ''string'')
             | [name] \<Rightarrow> (name, ''string'')
             | name # ty # rest \<Rightarrow> (name, if ty = [] then ''string'' else ty)))
         (split_str part '','')"

definition fromEntries :: "(string \<times> 'a) list \<Rightarrow> (string \<times> 'a) list" where
  "fromEntries es = foldl (\<lambda>obj e. obj_set obj (fst e) (snd e)) [] es"

definition no_output_part :: exn where
  \<comment> \<open>what \<open>part.split(',')\<close> throws when \<open>part\<close> is \<open>undefined\<close>\<close>
  "no_output_part =
     TypeError (''Cannot read properties of undefined (reading '' @ [CHR 0x27] @ ''split'' @ [CHR 0x27] @ '')'')"

definition parseStringSignature :: "string \<Rightarrow> exn + ParsedSignature" where
  \<comment> \<open>\<open>const [inputPart, outputPart] = signature.split('->').map(s => s.trim())\<close>: with no
      arrow in the text \<open>outputPart\<close> is \<open>undefined\<close> and \<open>part.split\<close> throws a \<open>TypeError\<close>;
      pieces after the second are dropped by the destructuring\<close>
  "parseStringSignature sig =
     (case map trim (split_str sig ''->'') of
        inputPart # outputPart # rest \<Rightarrow>
          (let inputFields = parseFields inputPart;
               outputFields = parseFields outputPart
           in Inr \<lparr>inputs = map fst inputFields,
                   outputs = map fst outputFields,
                   types = fromEntries (inputFields @ outputFields)\<rparr>)
      | _ \<Rightarrow> Inl no_output_part)"

section \<open>Reading a reply (utils/parsing.ts)\<close>

definition split_on :: "(char \<Rightarrow> bool) \<Rightarrow> string \<Rightarrow> string list" where
  \<comment> \<open>\<open>s.split(re)\<close> for a pattern that is one character class\<close>
  "split_on sep s = foldr (\<lambda>c acc. if sep c then [] # acc else (c # hd acc) # tl acc) s [[]]"

definition looks_like_json :: "string \<Rightarrow> bool" where
  "looks_like_json v = ((startsWith v ''{'' \<and> endsWith v ''}'') \<or> (startsWith v ''['' \<and> endsWith v '']''))"

definition auto_detect :: "'n runtime \<Rightarrow> string \<Rightarrow> 'n jsval" where
  "auto_detect rt v =
     (if looks_like_json v
      then (case JSON_parse rt v of Some j \<Rightarrow> j | None \<Rightarrow> Str v)
      else Str v)"

definition convertValue :: "'n runtime \<Rightarrow> string \<Rightarrow> string option \<Rightarrow> 'n jsval" where
  "convertValue rt v ty =
     (case ty of
        None \<Rightarrow> auto_detect rt v
      | Some t \<Rightarrow>
          if t = [] \<or> t = ''string'' then auto_detect rt v
          else let l = toLowerCase t in
            if l = ''number'' \<or> l = ''float'' then
              (case parseFloat rt v of None \<Rightarrow> Str v | Some n \<Rightarrow> Num n)
            else if l = ''int'' \<or> l = ''integer'' then
              (case parseInt rt v of None \<Rightarrow> Str v | Some n \<Rightarrow> Num n)
            else if l = ''boolean'' \<or> l = ''bool'' then
              Bool (toLowerCase v = ''true'' \<or> v = ''1'')
            else if l = ''array'' \<or> l = ''list'' then
              (case JSON_parse rt v of
                 Some j \<Rightarrow> j
               | None \<Rightarrow>
                   Arr (map Str (filter (\<lambda>s. s \<noteq> [])
                     (map trim (split_on (\<lambda>c. c = CHR '','' \<or> c = CHR '';'' \<or> c = CHR 0x0A) v)))))
            else if l = ''object'' \<or> l = ''json'' then
              (case JSON_parse rt v of Some j \<Rightarrow> j | None \<Rightarrow> Str v)
            else auto_detect rt v)"

definition asterisks_src :: string where
  "asterisks_src = bsl ''^%*+|%*+$''"

definition quotes_src :: string where
  "quotes_src = ''^['' @ [CHR 0x22, CHR 0x27] @ '']|['' @ [CHR 0x22, CHR 0x27] @ '']$''"

definition strip_artifacts :: "string \<Rightarrow> string" where
  \<comment> \<open>\<open>value.replace(/^\*+|\*+$/g, '').replace(/^["']|["']$/g, '')\<close>\<close>
  "strip_artifacts v =
     delete_all (delete_all v flags_none (regex_literal asterisks_src))
                flags_none (regex_literal quotes_src)"

text \<open>
  The five patterns of \<open>extractFieldValue\<close> are built by \<open>new RegExp\<close> from a template
  string: the field name, pasted in as it is, followed by a fixed text (for the third
  pattern also preceded by \<open>\b\<close>). The fixed texts, in the order of the source:
\<close>

definition standard_tail :: string where
  "standard_tail = bsl ''%s*:%s*(.+?)(?=%n%s*%w+%s*:|$)''"

definition alternative_tail :: string where
  "alternative_tail = bsl ''%s*[=:]%s*(.+?)(?=%n|$)''"

definition flexible_tail :: string where
  "flexible_tail = bsl ''%b[:%s=]*([^%n]+)''"

definition same_line_tail :: string where
  "same_line_tail = bsl ''[:%s]*([^%n]+?)(?=%n|$)''"

definition loose_tail :: string where
  "loose_tail = bsl ''[^%w]*([%s%S]*?)(?=%n%s*[A-Z]|$)''"

definition field_patterns :: "string \<Rightarrow> (string \<times> reflags) list" where
  "field_patterns fieldName =
     [(fieldName @ standard_tail, flags_is),
      (fieldName @ alternative_tail, flags_is),
      (bsl ''%b'' @ fieldName @ flexible_tail, flags_i),
      (fieldName @ same_line_tail, flags_i),
      (fieldName @ loose_tail, flags_i)]"

fun compile_all :: "(string \<times> reflags) list \<Rightarrow> exn + (regex \<times> reflags) list" where
  "compile_all [] = Inr []"
| "compile_all ((src, fl) # ps) =
     (case compile src of
        Inl e \<Rightarrow> Inl e
      | Inr re \<Rightarrow> (case compile_all ps of Inl e \<Rightarrow> Inl e | Inr res \<Rightarrow> Inr ((re, fl) # res)))"

definition candidate :: "string \<Rightarrow> regex \<times> reflags \<Rightarrow> string option" where
  \<comment> \<open>one round of the loop over the patterns: the cleaned text of group 1, if the
      pattern matches, the group is not empty and the cleaned text is not empty\<close>
  "candidate text p =
     (case str_match text (snd p) (fst p) of
        None \<Rightarrow> None
      | Some m \<Rightarrow>
          (case m 1 of
             None \<Rightarrow> None
           | Some g \<Rightarrow>
               if g = [] then None
               else (let v = trim (strip_artifacts (trim g)) in if v = [] then None else Some v)))"

fun first_candidate :: "string \<Rightarrow> (regex \<times> reflags) list \<Rightarrow> string option" where
  "first_candidate text [] = None"
| "first_candidate text (p # ps) =
     (case candidate text p of Some v \<Rightarrow> Some v | None \<Rightarrow> first_candidate text ps)"

definition extractFieldValue :: "'n runtime \<Rightarrow> string \<Rightarrow> string \<Rightarrow> string option \<Rightarrow> exn + 'n jsval" where
  \<comment> \<open>the text is a string at every call, so the conversion \<open>String(text)\<close> is left out;
      the array of the five patterns is built, and a bad pattern thrown, before any of
      them is tried\<close>
  "extractFieldValue rt text fieldName fieldType =
     (if fieldName = ''answer'' \<and> \<not> includes_str text '':'' \<and> \<not> includes_str text [CHR 0x0A]
         \<and> strip_artifacts (trim text) \<noteq> []
      then Inr (convertValue rt (strip_artifacts (trim text)) fieldType)
      else (case compile_all (field_patterns fieldName) of
              Inl e \<Rightarrow> Inl e
            | Inr ps \<Rightarrow>
                Inr (case first_candidate text ps of
                       Some v \<Rightarrow> convertValue rt v fieldType
                     | None \<Rightarrow> Null)))"

fun extract_fields :: "'n runtime \<Rightarrow> string \<Rightarrow> (string \<times> 'n jsval) list \<Rightarrow> (string \<times> string option) list
    \<Rightarrow> exn + (string \<times> 'n jsval) list" where
  \<comment> \<open>the loop \<open>result[key] = extractFieldValue(rawOutput, key, type)\<close> over the output fields\<close>
  "extract_fields rt rawOutput result [] = Inr result"
| "extract_fields rt rawOutput result ((key, ty) # fs) =
     (case extractFieldValue rt rawOutput key ty of
        Inl e \<Rightarrow> Inl e
      | Inr v \<Rightarrow> extract_fields rt rawOutput (obj_assign result key v) fs)"

definition parseOutputFromString :: "'n runtime \<Rightarrow> string \<Rightarrow> string \<Rightarrow> exn + (string \<times> 'n jsval) list" where
  "parseOutputFromString rt signatureStr rawOutput =
     (case parseStringSignature signatureStr of
        Inl e \<Rightarrow> Inl e
      | Inr parsed \<Rightarrow>
          extract_fields rt rawOutput []
            (map (\<lambda>outputKey. (outputKey, map_of (types parsed) outputKey)) (outputs parsed)))"

definition parseOutputFromClass :: "'n runtime \<Rightarrow> signature_class \<Rightarrow> string \<Rightarrow> exn + (string \<times> 'n jsval) list" where
  "parseOutputFromClass rt signatureClass rawOutput =
     extract_fields rt rawOutput []
       (map (\<lambda>e. (fst e, field_type (snd e))) (outputFields signatureClass))"

definition parseOutput :: "'n runtime \<Rightarrow> signature \<Rightarrow> string \<Rightarrow> exn + (string \<times> 'n jsval) list" where
  "parseOutput rt sig rawOutput =
     (case sig of
        StringSignature s \<Rightarrow> parseOutputFromString rt s rawOutput
      | ClassSignature c \<Rightarrow> parseOutputFromClass rt c rawOutput)"


section \<open>The agentic loop (modules/respact.ts)\<close>

text \<open>
  The language model and the tools are the caller's code. They may keep state and act on
  the world, so both are functions of a state \<open>'w\<close> that the loop threads through its
  calls in the order in which it makes them. A call returns \<open>Inr\<close> its result or \<open>Inl\<close>
  the value it throws or rejects with; a tool's result and a thrown value are recorded
  by the text that \<open>String\<close> gives for them, which is all the loop reads of either.
\<close>

type_synonym 'w capability = "string \<Rightarrow> 'w \<Rightarrow> (string + string) \<times> 'w"

record 'w ToolWithDescription =
  tool_description :: string
  tool_function :: "'w capability"

datatype 'w ToolDefinition = ToolFunction "'w capability" | Described "'w ToolWithDescription"

record 'w options =
  opt_tools :: "(string \<times> 'w ToolDefinition) list"
  opt_maxSteps :: "int option"

record 'w RespAct =
  signature :: signature
  lm :: "'w capability"
  tools :: "(string \<times> 'w ToolWithDescription) list"
  maxSteps :: int

definition normalize_tool :: "string \<Rightarrow> 'w ToolDefinition \<Rightarrow> 'w ToolWithDescription" where
  "normalize_tool name t =
     (case t of
        ToolFunction f \<Rightarrow> \<lparr>tool_description = ''Tool: '' @ name, tool_function = f\<rparr>
      | Described d \<Rightarrow> d)"

definition RespAct_constructor :: "signature \<Rightarrow> 'w capability \<Rightarrow> 'w options \<Rightarrow> 'w RespAct" where
  \<comment> \<open>\<open>this.maxSteps = options.maxSteps || 6\<close>: an absent and a zero \<open>maxSteps\<close> are falsy.
      A step limit is an integer here; fractions, infinities and \<open>NaN\<close> (falsy as well)
      are not modelled. The language model is the one \<open>Module\<close> takes from the
      configuration.\<close>
  "RespAct_constructor sig model opts =
     \<lparr>signature = sig,
      lm = model,
      tools = foldl (\<lambda>ts e. obj_assign ts (fst e) (normalize_tool (fst e) (snd e))) [] (opt_tools opts),
      maxSteps = (case opt_maxSteps opts of None \<Rightarrow> 6 | Some n \<Rightarrow> if n = 0 then 6 else n)\<rparr>"

subsection \<open>The initial prompt\<close>

definition unlines :: "string list \<Rightarrow> string" where
  "unlines ls = join_str ls [CHR 0x0A]"

definition outputFormatInstruction :: "signature \<Rightarrow> string" where
  "outputFormatInstruction sig =
     (case sig of
        StringSignature s \<Rightarrow> []
      | ClassSignature c \<Rightarrow>
          if keys (outputFields c) = [] then []
          else [CHR 0x0A, CHR 0x0A]
            @ ''IMPORTANT: When providing your Final Answer, you MUST provide ALL the following fields in this EXACT format:''
            @ [CHR 0x0A, CHR 0x0A]
            @ concat (map (\<lambda>field. field @ '': [your response for '' @ field @ '']'' @ [CHR 0x0A])
                          (keys (outputFields c))))"

definition buildInitialPrompt :: "'n runtime \<Rightarrow> 'w RespAct \<Rightarrow> (string \<times> 'n jsval) list \<Rightarrow> string" where
  "buildInitialPrompt rt a inps =
     unlines
      [''You have access to the following tools:'',
       unlines (map (\<lambda>e. ''- '' @ fst e @ '': '' @ tool_description (snd e)) (tools a)),
       [],
       ''Question: '' @ (if truthy rt (map_of inps ''question'')
                         then (case map_of inps ''question'' of Some q \<Rightarrow> String_of rt q | None \<Rightarrow> [])
                         else JSON_stringify rt (Obj inps)),
       [],
       ''IMPORTANT: You MUST use the available tools to solve this question. Do not attempt to answer directly without using tools when tools are available for the task.'',
       [],
       ''CRITICAL: Take ONE action at a time. After each action, you will receive an observation. Do NOT plan multiple actions in advance.'',
       [],
       ''Work systematically:'',
       ''1. Gather all necessary data using tools'',
       ''2. Perform calculations if needed '',
       ''3. When you have ALL the information needed to answer the question completely, provide your Final Answer'',
       [],
       ''Use this EXACT format (DO NOT generate the Observation line - it will be provided automatically):'',
       ''Thought: [your reasoning about what to do next]'',
       ''Action: [tool name]'',
       ''Action Input: [input to the tool]'',
       [],
       ''After you receive the Observation, you can then decide your next action. '',
       [],
       ''When you have gathered ALL necessary information through tool usage, provide:'',
       ''Thought: [reasoning that you now have everything needed]'',
       ''Final Answer: [complete answer to the original question using all gathered information]''
         @ outputFormatInstruction (signature a),
       [],
       ''Begin! Remember: ONE action at a time, then decide if you need more information or can provide the final answer.'']"

subsection \<open>Reading the model's reply\<close>

record toolcall =
  tool :: string
  input :: string

definition action_src :: string where
  "action_src = bsl ''Action:%s*(.+?)(?=%n|$)''"

definition action_input_src :: string where
  "action_input_src = bsl ''Action Input:%s*(.+?)(?=%n|$)''"

definition final_answer_src :: string where
  "final_answer_src = bsl ''Final Answer:%s*(.+?)$''"

definition capture :: "(nat \<rightharpoonup> string) \<Rightarrow> nat \<Rightarrow> string" where
  \<comment> \<open>\<open>match[i]\<close> for a group that takes part in every match of its pattern
      (\<open>group1_participates\<close> below), so the second branch is never taken\<close>
  "capture m i = (case m i of Some g \<Rightarrow> g | None \<Rightarrow> [])"

definition extractToolCall :: "string \<Rightarrow> toolcall option" where
  "extractToolCall response =
     (case str_match response flags_m (regex_literal action_src) of
        None \<Rightarrow> None
      | Some actionMatch \<Rightarrow>
          (case str_match response flags_m (regex_literal action_input_src) of
             None \<Rightarrow> None
           | Some inputMatch \<Rightarrow>
               Some \<lparr>tool = trim (capture actionMatch 1), input = trim (capture inputMatch 1)\<rparr>))"

definition extractFinalAnswer :: "'n runtime \<Rightarrow> string \<Rightarrow> 'n jsval" where
  "extractFinalAnswer rt response =
     (case str_match response flags_m (regex_literal final_answer_src) of
        None \<Rightarrow> Null
      | Some m \<Rightarrow>
          (let answer = trim (capture m 1) in
           case Number rt answer of
             Some num \<Rightarrow> Num num
           | None \<Rightarrow> (case JSON_parse rt answer of Some j \<Rightarrow> j | None \<Rightarrow> Str answer)))"

definition has_final_answer :: "string \<Rightarrow> bool" where
  \<comment> \<open>\<open>response.toLowerCase().includes('final answer:')\<close>\<close>
  "has_final_answer response = includes_str (toLowerCase response) ''final answer:''"

definition RespAct_parseOutput :: "'n runtime \<Rightarrow> 'w RespAct \<Rightarrow> 'n jsval \<Rightarrow> exn + (string \<times> 'n jsval) list" where
  \<comment> \<open>the method \<open>parseOutput\<close> of the class; the empty string is the one falsy signature\<close>
  "RespAct_parseOutput rt a rawOutput =
     (if signature a = StringSignature []
      then Inl (Error ''No signature provided for RespAct parsing'')
      else parseOutput rt (signature a)
             (case rawOutput of Str s \<Rightarrow> s | _ \<Rightarrow> JSON_stringify rt rawOutput))"

subsection \<open>Running a tool\<close>

definition object_prototype_keys :: "string list" where
  \<comment> \<open>the properties every plain object inherits, which \<open>in\<close> finds\<close>
  "object_prototype_keys =
     [''constructor'', ''__proto__'', ''hasOwnProperty'', ''isPrototypeOf'', ''propertyIsEnumerable'',
      ''toLocaleString'', ''toString'', ''valueOf'', ''__defineGetter__'', ''__defineSetter__'',
      ''__lookupGetter__'', ''__lookupSetter__'']"

text \<open>
  \<open>executeTool\<close> returns the text of the observation, the calls of tool functions it made
  (at most one) and the new state of the world. Its own \<open>try\<close> catches what the tool
  throws, so the promise it returns is never rejected: the result is always \<open>Inr\<close>.
\<close>

definition executeTool :: "'n runtime \<Rightarrow> 'w RespAct \<Rightarrow> string \<Rightarrow> string \<Rightarrow> 'w
    \<Rightarrow> (string + string) \<times> (string \<times> string) list \<times> 'w" where
  "executeTool rt a toolName inp w =
     (case map_of (tools a) toolName of
        Some t \<Rightarrow>
          (case tool_function t inp w of
             (Inr result, w') \<Rightarrow> (Inr result, [(toolName, inp)], w')
           | (Inl error, w') \<Rightarrow>
               (Inr (''Error executing '' @ toolName @ '': '' @ error), [(toolName, inp)], w'))
      | None \<Rightarrow>
          if toolName \<in> set object_prototype_keys
          then (Inr (''Error executing '' @ toolName @ '': '' @ not_a_function rt), [], w)
          else (Inr (''Error: Tool '' @ [CHR 0x27] @ toolName @ [CHR 0x27] @ '' not found. Available tools: ''
                     @ join_str (keys (tools a)) '', ''), [], w))"

subsection \<open>The loop\<close>

text \<open>
  The state of one invocation: the transcript and the keys of the tool calls made, as
  in the source, and two counters the source does not keep, which record what the
  invocation did: the number of calls of \<open>lm.generate\<close> and the calls of tool functions,
  each with the tool's name and its input.
\<close>

record loop_state =
  conversation :: string
  previousToolCalls :: "string list"
  lm_calls :: nat
  tool_runs :: "(string \<times> string) list"

record 'n Prediction =
  data :: "(string \<times> 'n jsval) list"
  steps :: int

datatype 'n step_result = Continue | Return "'n Prediction" | Throw exn

definition is_provided :: "'n jsval \<Rightarrow> bool" where
  "is_provided v = (v \<noteq> Null)"

definition already_made :: string where
  "already_made = [CHR 0x0A, CHR 0x0A] @ ''Observation: You have already made this tool call. Please move to the next step.''"

definition incomplete_answer :: "string list \<Rightarrow> string" where
  "incomplete_answer requiredFields =
     [CHR 0x0A, CHR 0x0A] @ ''Observation: Your Final Answer needs to include structured fields: ''
       @ join_str requiredFields '', '' @ ''. Please provide a Final Answer with the required format.''"

definition finalAnswerData :: "(string \<times> 'n jsval) list \<Rightarrow> 'n jsval \<Rightarrow> (string \<times> 'n jsval) list" where
  "finalAnswerData parsedFromSignature rawAnswer =
     (if \<not> list_ex (\<lambda>e. is_provided (snd e)) parsedFromSignature \<or> keys parsedFromSignature = []
      then [(''answer'', rawAnswer)]
      else if ''answer'' \<notin> set (keys parsedFromSignature) \<and> rawAnswer \<noteq> Null
      then obj_set parsedFromSignature ''answer'' rawAnswer
      else parsedFromSignature)"

definition make_prediction :: "(string \<times> 'n jsval) list \<Rightarrow> int \<Rightarrow> 'n Prediction" where
  \<comment> \<open>\<open>new Prediction({ ...finalAnswerData, steps: step + 1 })\<close>: the key \<open>steps\<close> holds the
      count, whatever the answer had there\<close>
  "make_prediction answer n = \<lparr>data = filter (\<lambda>e. fst e \<noteq> ''steps'') answer, steps = n\<rparr>"

definition final_answer :: "'n runtime \<Rightarrow> 'w RespAct \<Rightarrow> int \<Rightarrow> loop_state \<Rightarrow> string \<Rightarrow> 'n step_result \<times> loop_state" where
  \<comment> \<open>the branch of the loop body for a reply with \<open>final answer:\<close> and no tool call\<close>
  "final_answer rt a step st response =
     (let rawAnswer = extractFinalAnswer rt response;
          parsedFromSignature =
            (case RespAct_parseOutput rt a rawAnswer of Inr parsed \<Rightarrow> parsed | Inl error \<Rightarrow> [])
      in case signature a of
           ClassSignature c \<Rightarrow>
             if filter (\<lambda>e. is_provided (snd e)) parsedFromSignature = []
             then (Continue, st\<lparr>conversation := conversation st @ incomplete_answer (keys (outputFields c))\<rparr>)
             else (Return (make_prediction (finalAnswerData parsedFromSignature rawAnswer) (step + 1)), st)
         | StringSignature s \<Rightarrow>
             (Return (make_prediction (finalAnswerData parsedFromSignature rawAnswer) (step + 1)), st))"

definition iteration :: "'n runtime \<Rightarrow> 'w RespAct \<Rightarrow> int \<Rightarrow> loop_state \<Rightarrow> 'w \<Rightarrow> 'n step_result \<times> loop_state \<times> 'w" where
  \<comment> \<open>one run of the body of the \<open>for\<close> loop\<close>
  "iteration rt a step st w =
     (case lm a (conversation st @ [CHR 0x0A, CHR 0x0A] @ ''Thought:'') w of
        (Inl error, w1) \<Rightarrow> (Throw (Rejected error), st\<lparr>lm_calls := Suc (lm_calls st)\<rparr>, w1)
      | (Inr response, w1) \<Rightarrow>
          (let st1 = st\<lparr>conversation := conversation st @ [CHR 0x0A, CHR 0x0A] @ ''Thought: '' @ response,
                        lm_calls := Suc (lm_calls st)\<rparr>
           in case extractToolCall response of
                Some toolCall \<Rightarrow>
                  (let toolCallKey = tool toolCall @ '':'' @ input toolCall in
                   if toolCallKey \<in> set (previousToolCalls st1)
                   then (Continue, st1\<lparr>conversation := conversation st1 @ already_made\<rparr>, w1)
                   else
                     (let st2 = st1\<lparr>previousToolCalls := previousToolCalls st1 @ [toolCallKey]\<rparr> in
                      case executeTool rt a (tool toolCall) (input toolCall) w1 of
                        (Inr observation, runs, w2) \<Rightarrow>
                          (Continue,
                           st2\<lparr>conversation := conversation st2 @ [CHR 0x0A, CHR 0x0A] @ ''Observation: '' @ observation,
                               tool_runs := tool_runs st2 @ runs\<rparr>, w2)
                      | (Inl error, runs, w2) \<Rightarrow>
                          (Continue,
                           st2\<lparr>conversation := conversation st2 @ [CHR 0x0A, CHR 0x0A] @ ''Observation: Error - '' @ error,
                               tool_runs := tool_runs st2 @ runs\<rparr>, w2)))
              | None \<Rightarrow>
                  if has_final_answer response
                  then (case final_answer rt a step st1 response of (r, st2) \<Rightarrow> (r, st2, w1))
                  else (Continue, st1, w1)))"

fun show_nat :: "nat \<Rightarrow> string" where
  "show_nat n = (if n < 10 then [char_of (48 + n)] else show_nat (n div 10) @ [char_of (48 + n mod 10)])"

declare show_nat.simps [simp del]

definition show_int :: "int \<Rightarrow> string" where
  "show_int i = (if i < 0 then ''-'' @ show_nat (nat (- i)) else show_nat (nat i))"

definition exceeded :: "int \<Rightarrow> exn" where
  "exceeded n = Error (''RespAct exceeded maximum steps ('' @ show_int n @ '') without finding answer'')"

function loop :: "'n runtime \<Rightarrow> 'w RespAct \<Rightarrow> int \<Rightarrow> loop_state \<Rightarrow> 'w \<Rightarrow> (exn + 'n Prediction) \<times> loop_state \<times> 'w" where
  "loop rt a step st w =
     (if step < maxSteps a
      then (case iteration rt a step st w of
              (Continue, st', w') \<Rightarrow> loop rt a (step + 1) st' w'
            | (Return p, st', w') \<Rightarrow> (Inr p, st', w')
            | (Throw e, st', w') \<Rightarrow> (Inl e, st', w'))
      else (Inl (exceeded (maxSteps a)), st, w))"
  by pat_completeness auto
termination
  by (relation "measure (\<lambda>(rt, a, step, st, w). nat (maxSteps a - step))") auto

declare loop.simps [simp del]

definition start :: "'n runtime \<Rightarrow> 'w RespAct \<Rightarrow> (string \<times> 'n jsval) list \<Rightarrow> loop_state" where
  \<comment> \<open>the state in which \<open>forward\<close> enters the loop\<close>
  "start rt a inps = \<lparr>conversation = buildInitialPrompt rt a inps, previousToolCalls = [],
                        lm_calls = 0, tool_runs = []\<rparr>"

definition forward :: "'n runtime \<Rightarrow> 'w RespAct \<Rightarrow> (string \<times> 'n jsval) list \<Rightarrow> 'w \<Rightarrow> (exn + 'n Prediction) \<times> loop_state \<times> 'w" where
  "forward rt a inps w = loop rt a 0 (start rt a inps) w"


section \<open>Definitions used in the statements and proofs\<close>

text \<open>
  \<open>always_sets i r\<close> is a syntactic check that every match of \<open>r\<close> sets group \<open>i\<close>: the
  group lies on the spine of sequences of \<open>r\<close> and nothing after it clears it.
\<close>

fun always_sets :: "nat \<Rightarrow> regex \<Rightarrow> bool" where
  "always_sets i (RGroup j r) = (j = i \<or> always_sets i r)"
| "always_sets i (RSeq a b) = ((always_sets i a \<and> i \<notin> set (groups b)) \<or> always_sets i b)"
| "always_sets i r = False"

text \<open>
  \<open>lit s r\<close> is the pattern that reads the characters of \<open>s\<close> and then \<open>r\<close>;
  \<open>ci_includes t s\<close> says that \<open>s\<close> occurs in the text \<open>t\<close> when case is ignored.
\<close>

definition lit :: "string \<Rightarrow> regex \<Rightarrow> regex" where
  "lit s r = foldr (\<lambda>c acc. RSeq (RChar c) acc) s r"

fun ci_prefix :: "string \<Rightarrow> string \<Rightarrow> bool" where
  "ci_prefix [] s = True"
| "ci_prefix (a # as) [] = False"
| "ci_prefix (a # as) (c # cs) = (to_upper a = to_upper c \<and> ci_prefix as cs)"

fun ci_includes :: "string \<Rightarrow> string \<Rightarrow> bool" where
  "ci_includes [] s = (s = [])"
| "ci_includes (c # cs) s = (ci_prefix s (c # cs) \<or> ci_includes cs s)"

definition tool_key :: "string \<times> string \<Rightarrow> string" where
  \<comment> \<open>the dedup key of a call of a tool function\<close>
  "tool_key run = fst run @ '':'' @ snd run"

definition thought :: "loop_state \<Rightarrow> string \<Rightarrow> loop_state" where
  \<comment> \<open>the state after \<open>lm.generate\<close> has returned \<open>response\<close> and the transcript has it\<close>
  "thought st response =
     st\<lparr>conversation := conversation st @ [CHR 0x0A, CHR 0x0A] @ ''Thought: '' @ response,
        lm_calls := Suc (lm_calls st)\<rparr>"

definition prompt :: "loop_state \<Rightarrow> string" where
  \<comment> \<open>the argument of \<open>lm.generate\<close>\<close>
  "prompt st = conversation st @ [CHR 0x0A, CHR 0x0A] @ ''Thought:''"

subsection \<open>A runtime, a model and tools for the examples\<close>

text \<open>
  \<open>sample_runtime\<close> is a runtime whose numbers are the integers. It reads a number only
  from a text that is an optional sign and decimal digits, and JSON only from such a
  text and from \<open>null\<close>, \<open>true\<close> and \<open>false\<close>, and prints a string without escapes; on
  the texts of the examples below, which are neither numerals nor JSON, it gives what
  ECMAScript gives: \<open>NaN\<close> and a \<open>SyntaxError\<close>.
\<close>

definition digits_value :: "string \<Rightarrow> int" where
  "digits_value ds = foldl (\<lambda>acc c. 10 * acc + (int (code_unit c) - 48)) 0 ds"

definition int_literal :: "string \<Rightarrow> int option" where
  "int_literal s =
     (case s of
        [] \<Rightarrow> None
      | c # cs \<Rightarrow>
          if (c = CHR ''-'' \<or> c = CHR ''+'') \<and> cs \<noteq> [] \<and> list_all is_digit cs
          then Some (if c = CHR ''-'' then - digits_value cs else digits_value cs)
          else if list_all is_digit (c # cs) then Some (digits_value (c # cs))
          else None)"

definition sample_parse :: "string \<Rightarrow> int jsval option" where
  "sample_parse s =
     (case int_literal s of
        Some n \<Rightarrow> Some (Num n)
      | None \<Rightarrow>
          if s = ''null'' then Some Null
          else if s = ''true'' then Some (Bool True)
          else if s = ''false'' then Some (Bool False)
          else None)"

fun sample_json :: "int jsval \<Rightarrow> string" where
  "sample_json Null = ''null''"
| "sample_json (Bool b) = (if b then ''true'' else ''false'')"
| "sample_json (Num n) = show_int n"
| "sample_json (Str s) = [CHR 0x22] @ s @ [CHR 0x22]"
| "sample_json (Arr xs) = ''['' @ join_str (map sample_json xs) '','' @ '']''"
| "sample_json (Obj kvs) =
     ''{'' @ join_str (map (\<lambda>e. [CHR 0x22] @ fst e @ [CHR 0x22] @ '':'' @ sample_json (snd e)) kvs) '','' @ ''}''"

fun sample_string :: "int jsval \<Rightarrow> string" where
  "sample_string Null = ''null''"
| "sample_string (Bool b) = (if b then ''true'' else ''false'')"
| "sample_string (Num n) = show_int n"
| "sample_string (Str s) = s"
| "sample_string (Arr xs) =
     join_str (map (\<lambda>x. if x = Null then [] else sample_string x) xs) '',''"
| "sample_string (Obj kvs) = ''[object Object]''"

definition sample_runtime :: "int runtime" where
  "sample_runtime =
     \<lparr>Number = (\<lambda>s. if s = [] then Some 0 else int_literal s),
      parseFloat = int_literal,
      parseInt = int_literal,
      JSON_parse = sample_parse,
      JSON_stringify = sample_json,
      String_of = sample_string,
      num_truthy = (\<lambda>n. n \<noteq> 0),
      not_a_function = ''TypeError: this.tools[toolName].function is not a function''\<rparr>"

text \<open>
  \<open>scripted\<close> is the mock model of the repository's tests: it answers the calls with the
  replies of a list, in order, and rejects when the list is used up. The state of the
  world is the number of replies given.
\<close>

definition scripted :: "string list \<Rightarrow> nat capability" where
  "scripted replies p i =
     (if i < length replies then (Inr (replies ! i), Suc i)
      else (Inl ''Error: No more mock responses available'', Suc i))"


definition returning :: "string \<Rightarrow> nat capability" where
  \<comment> \<open>a tool that returns the same result for every input\<close>
  "returning result inp w = (Inr result, w)"


definition field :: "string \<Rightarrow> FieldConfig" where
  \<comment> \<open>what the decorator \<open>@OutputField({ description })\<close> registers\<close>
  "field d = \<lparr>description = d, prefix = None, field_type = Some ''string'', required = Some True\<rparr>"

definition StockQuote :: signature where
  "StockQuote = ClassSignature
     \<lparr>inputFields = [(''question'', field ''Input field: question'')],
      outputFields = [(''symbol'', field ''Ticker symbol''), (''price'', field ''Last price'')]\<rparr>"

definition add_tool :: "(string \<times> nat ToolDefinition) list" where
  "add_tool = [(''add'', ToolFunction (returning ''5''))]"

definition ask :: "(string \<times> int jsval) list" where
  "ask = [(''question'', Str ''What is 2 plus 3?'')]"



definition stock_agent :: "string list \<Rightarrow> nat RespAct" where
  "stock_agent replies = RespAct_constructor StockQuote (scripted replies)
     \<lparr>opt_tools = add_tool, opt_maxSteps = None\<rparr>"



definition call_reply :: string where
  "call_reply = ''Action: add\<newline>Action Input: 2,3''"

definition dedup_agent :: "nat RespAct" where
  \<comment> \<open>the model asks for the same tool call twice, then answers\<close>
  "dedup_agent = RespAct_constructor (StringSignature ''question -> answer'')
     (scripted [call_reply, call_reply, ''Final Answer: 5''])
     \<lparr>opt_tools = add_tool, opt_maxSteps = Some 3\<rparr>"

definition after_first_call :: loop_state where
  \<comment> \<open>a state in which the call \<open>add:2,3\<close> has been made\<close>
  "after_first_call =
     (start sample_runtime dedup_agent ask)
       \<lparr>previousToolCalls := [''add:2,3''], lm_calls := 1, tool_runs := [(''add'', ''2,3'')]\<rparr>"

definition partial_reply :: string where
  \<comment> \<open>a final answer with \<open>symbol\<close> and without \<open>price\<close>\<close>
  "partial_reply = ''Final Answer: symbol: AAPL''"


section \<open>Proofs\<close>


lemma action_compiles:
  "compile action_src =
     Inr (RSeq (RChar CHR ''A'') (RSeq (RChar CHR ''c'') (RSeq (RChar CHR ''t'') (RSeq (RChar CHR ''i'')
       (RSeq (RChar CHR ''o'') (RSeq (RChar CHR ''n'') (RSeq (RChar CHR '':'')
       (RSeq (RStar True (RClass False [CSpace True]))
       (RSeq (RGroup 1 (RSeq (RPlus False RAny) REmpty))
       (RSeq (RLook True (RAlt (RSeq (RChar (CHR 0x0A)) REmpty) (RSeq REol REmpty))) REmpty))))))))))"
  by code_simp

lemma action_sets: "always_sets 1 (regex_literal action_src)"
  by code_simp
lemma action_input_sets: "always_sets 1 (regex_literal action_input_src)"
  by code_simp
lemma final_answer_sets: "always_sets 1 (regex_literal final_answer_src)"
  by code_simp

lemma map_of_clear: "i \<notin> set gs \<Longrightarrow> map_of (filter (\<lambda>e. fst e \<notin> set gs) caps) i = map_of caps i"
  by (induction caps) auto

lemma clear_caps_keeps:
  "i \<notin> set gs \<Longrightarrow> map_of (snd (snd (clear_caps gs s))) i = map_of (snd (snd s)) i"
  by (cases s) (simp add: clear_caps_def map_of_clear)

lemma iter_keeps:
  assumes f: "\<And>s s'. s' \<in> set (f s) \<Longrightarrow> map_of (snd (snd s')) i = map_of (snd (snd s)) (i::nat)"
  shows "s' \<in> set (iter g f fuel s) \<Longrightarrow> map_of (snd (snd s')) i = map_of (snd (snd s)) i"
proof (induction fuel arbitrary: s s')
  case Nil
  then show ?case by simp
next
  case (Cons x fuel)
  from Cons.prems have "s' = s \<or> (\<exists>m \<in> set (f s). s' \<in> set (iter g f fuel m))"
    by (auto simp: Let_def split: if_splits)
  then show ?case
  proof
    assume "s' = s"
    then show ?thesis by simp
  next
    assume "\<exists>m \<in> set (f s). s' \<in> set (iter g f fuel m)"
    then obtain m where m: "m \<in> set (f s)" and s': "s' \<in> set (iter g f fuel m)" by blast
    from Cons.IH[OF s'] f[OF m] show ?thesis by simp
  qed
qed

lemma matches_keeps:
  "i \<notin> set (groups r) \<Longrightarrow> s' \<in> set (matches fl r s) \<Longrightarrow> map_of (snd (snd s')) i = map_of (snd (snd s)) i"
proof (induction r arbitrary: s s')
  case (RSeq a b)
  from RSeq.prems obtain m where m: "m \<in> set (matches fl a s)" and s': "s' \<in> set (matches fl b m)"
    by auto
  from RSeq.prems have "i \<notin> set (groups a)" "i \<notin> set (groups b)" by auto
  with RSeq.IH(1)[OF _ m] RSeq.IH(2)[OF _ s'] show ?case by simp
next
  case (RAlt a b)
  from RAlt.prems have "i \<notin> set (groups a)" "i \<notin> set (groups b)" by auto
  moreover from RAlt.prems have "s' \<in> set (matches fl a s) \<or> s' \<in> set (matches fl b s)" by auto
  ultimately show ?case using RAlt.IH by blast
next
  case (RStar g r)
  from RStar.prems have i: "i \<notin> set (groups r)" by simp
  have once: "map_of (snd (snd s')) i = map_of (snd (snd s)) i"
    if "s' \<in> set (matches fl r (clear_caps (groups r) s))" for s s'
    using trans[OF RStar.IH[OF i that] clear_caps_keeps[OF i]] .
  from RStar.prems have "s' \<in> set (iter g (\<lambda>s. matches fl r (clear_caps (groups r) s)) (fst (snd s)) s)"
    by simp
  from iter_keeps[of "\<lambda>s. matches fl r (clear_caps (groups r) s)", OF once this] show ?case .
next
  case (RPlus g r)
  from RPlus.prems have i: "i \<notin> set (groups r)" by simp
  have once: "map_of (snd (snd s')) i = map_of (snd (snd s)) i"
    if "s' \<in> set (matches fl r (clear_caps (groups r) s))" for s s'
    using trans[OF RPlus.IH[OF i that] clear_caps_keeps[OF i]] .
  from RPlus.prems obtain m where m: "m \<in> set (matches fl r (clear_caps (groups r) s))"
    and s': "s' \<in> set (iter g (\<lambda>s. matches fl r (clear_caps (groups r) s)) (fst (snd m)) m)"
    by auto
  from iter_keeps[of "\<lambda>s. matches fl r (clear_caps (groups r) s)", OF once s'] once[OF m]
  show ?case by simp
next
  case (ROpt g r)
  from ROpt.prems have i: "i \<notin> set (groups r)" by simp
  from ROpt.prems have "s' = s \<or> s' \<in> set (matches fl r (clear_caps (groups r) s))"
    by (auto simp: Let_def split: if_splits)
  then show ?case
  proof
    assume "s' = s"
    then show ?thesis by simp
  next
    assume "s' \<in> set (matches fl r (clear_caps (groups r) s))"
    from trans[OF ROpt.IH[OF i this] clear_caps_keeps[OF i]] show ?thesis .
  qed
next
  case (RGroup j r)
  from RGroup.prems have i: "i \<notin> set (groups r)" and ji: "j \<noteq> i" by auto
  from RGroup.prems obtain m where m: "m \<in> set (matches fl r s)"
    and s': "snd (snd s') = (j, take (length (fst (snd s)) - length (fst (snd m))) (fst (snd s))) # snd (snd m)"
    by auto
  from RGroup.IH[OF i m] s' ji show ?case by simp
next
  case (RLook b r)
  from RLook.prems have i: "i \<notin> set (groups r)" by simp
  show ?case
  proof (cases "matches fl r s")
    case Nil
    with RLook.prems show ?thesis by (simp split: if_splits)
  next
    case (Cons m ms)
    then have "m \<in> set (matches fl r s)" by simp
    from RLook.IH[OF i this] RLook.prems Cons show ?thesis by (simp split: if_splits)
  qed
next
  case (RChar c)
  then show ?case by (cases s) (auto simp: step_char_def split: list.splits if_splits)
next
  case RAny
  then show ?case by (cases s) (auto simp: step_char_def split: list.splits if_splits)
next
  case (RClass n items)
  then show ?case by (cases s) (auto simp: step_char_def split: list.splits if_splits)
qed (simp_all split: if_splits)

lemma matches_sets:
  "always_sets i r \<Longrightarrow> s' \<in> set (matches fl r s) \<Longrightarrow> map_of (snd (snd s')) i \<noteq> None"
proof (induction r arbitrary: s s')
  case (RSeq a b)
  from RSeq.prems obtain m where m: "m \<in> set (matches fl a s)" and s': "s' \<in> set (matches fl b m)"
    by auto
  from RSeq.prems(1) have "(always_sets i a \<and> i \<notin> set (groups b)) \<or> always_sets i b" by simp
  then show ?case
  proof
    assume a: "always_sets i a \<and> i \<notin> set (groups b)"
    with RSeq.IH(1)[OF _ m] matches_keeps[OF _ s'] show ?thesis by simp
  next
    assume "always_sets i b"
    from RSeq.IH(2)[OF this s'] show ?thesis .
  qed
next
  case (RGroup j r)
  from RGroup.prems obtain m where m: "m \<in> set (matches fl r s)"
    and s': "snd (snd s') = (j, take (length (fst (snd s)) - length (fst (snd m))) (fst (snd s))) # snd (snd m)"
    by auto
  show ?case
  proof (cases "j = i")
    case True
    with s' show ?thesis by simp
  next
    case False
    with RGroup.prems have "always_sets i r" by simp
    from RGroup.IH[OF this m] s' False show ?thesis by simp
  qed
qed simp_all

lemma search_sets:
  "always_sets i re \<Longrightarrow> search fl re p s = Some m \<Longrightarrow> map_of (snd (snd m)) i \<noteq> None"
proof (induction fl re p s rule: search.induct)
  case (1 fl re p s)
  show ?case
  proof (cases "matches fl re (p, s, [])")
    case Nil
    with 1 show ?thesis by (cases s) auto
  next
    case (Cons x xs)
    then have "x \<in> set (matches fl re (p, s, []))" by simp
    from matches_sets[OF 1(2) this] Cons 1(3) show ?thesis by auto
  qed
qed

lemma str_match_sets:
  "always_sets i re \<Longrightarrow> str_match s fl re = Some m \<Longrightarrow> m i \<noteq> None"
  by (auto simp: str_match_def dest: search_sets)


lemma literals_compile:
  "\<not> isl (compile action_src)" "\<not> isl (compile action_input_src)" "\<not> isl (compile final_answer_src)"
  "\<not> isl (compile asterisks_src)" "\<not> isl (compile quotes_src)"
  by code_simp+

lemma group1_participates:
  "str_match s flags_m (regex_literal action_src) = Some m \<Longrightarrow> m 1 \<noteq> None"
  "str_match s flags_m (regex_literal action_input_src) = Some m \<Longrightarrow> m 1 \<noteq> None"
  "str_match s flags_m (regex_literal final_answer_src) = Some m \<Longrightarrow> m 1 \<noteq> None"
  using str_match_sets[OF action_sets] str_match_sets[OF action_input_sets]
    str_match_sets[OF final_answer_sets] by blast+

lemma loop_continue:
  "step < maxSteps a \<Longrightarrow> iteration rt a step st w = (Continue, st', w')
    \<Longrightarrow> loop rt a step st w = loop rt a (step + 1) st' w'"
  by (subst loop.simps) simp

lemma loop_return:
  "step < maxSteps a \<Longrightarrow> iteration rt a step st w = (Return p, st', w')
    \<Longrightarrow> loop rt a step st w = (Inr p, st', w')"
  by (subst loop.simps) simp

lemma loop_exceeded:
  "\<not> step < maxSteps a \<Longrightarrow> loop rt a step st w = (Inl (exceeded (maxSteps a)), st, w)"
  by (subst loop.simps) simp

lemma executeTool_result:
  "\<exists>obs runs w'. executeTool rt a n i w = (Inr obs, runs, w') \<and> (runs = [] \<or> runs = [(n, i)])"
  by (auto simp: executeTool_def split: option.splits prod.splits sum.splits)

lemma iteration_repeated:
  assumes "lm a (prompt st) w = (Inr response, w1)"
    and "extractToolCall response = Some tc"
    and "tool tc @ '':'' @ input tc \<in> set (previousToolCalls st)"
  shows "iteration rt a step st w =
    (Continue, (thought st response)\<lparr>conversation := conversation (thought st response) @ already_made\<rparr>, w1)"
  using assms by (simp add: iteration_def prompt_def thought_def Let_def)

lemma iteration_fresh:
  assumes "lm a (prompt st) w = (Inr response, w1)"
    and "extractToolCall response = Some tc"
    and "tool tc @ '':'' @ input tc \<notin> set (previousToolCalls st)"
    and "executeTool rt a (tool tc) (input tc) w1 = (Inr obs, runs, w2)"
  shows "iteration rt a step st w =
    (Continue,
     (thought st response)\<lparr>previousToolCalls := previousToolCalls st @ [tool tc @ '':'' @ input tc],
       conversation := conversation (thought st response) @ [CHR 0x0A, CHR 0x0A] @ ''Observation: '' @ obs,
       tool_runs := tool_runs st @ runs\<rparr>, w2)"
  using assms by (simp add: iteration_def prompt_def thought_def Let_def)

lemma iteration_neither:
  assumes "lm a (prompt st) w = (Inr response, w1)"
    and "extractToolCall response = None"
    and "\<not> has_final_answer response"
  shows "iteration rt a step st w = (Continue, thought st response, w1)"
  using assms by (simp add: iteration_def prompt_def thought_def Let_def)

lemma iteration_final:
  assumes "lm a (prompt st) w = (Inr response, w1)"
    and "extractToolCall response = None"
    and "has_final_answer response"
  shows "iteration rt a step st w =
    (fst (final_answer rt a step (thought st response) response),
     snd (final_answer rt a step (thought st response) response), w1)"
  using assms by (simp add: iteration_def prompt_def thought_def Let_def split: prod.splits)














lemma final_answer_state:
  "snd (final_answer rt a step st response) = st
   \<or> (\<exists>c. snd (final_answer rt a step st response) = st\<lparr>conversation := c\<rparr>)"
  by (auto simp: final_answer_def Let_def split: signature.splits)

lemma final_answer_frame:
  "tool_runs (snd (final_answer rt a step st response)) = tool_runs st
   \<and> previousToolCalls (snd (final_answer rt a step st response)) = previousToolCalls st
   \<and> lm_calls (snd (final_answer rt a step st response)) = lm_calls st"
  using final_answer_state[of rt a step st response] by (elim disjE exE) simp_all

lemma runs_unchanged:
  fixes f :: "'a \<Rightarrow> 'b"
  assumes "distinct (map f R)" "set (map f R) \<subseteq> set P" "R' = R" "P' = P"
  shows "distinct (map f R') \<and> set (map f R') \<subseteq> set P' \<and> set P \<subseteq> set P'"
  using assms by simp

lemma runs_extended:
  fixes f :: "'a \<Rightarrow> 'b"
  assumes "distinct (map f R)" "set (map f R) \<subseteq> set P" "k \<notin> set P"
    "R' = R \<or> (\<exists>x. R' = R @ [x] \<and> f x = k)" "P' = P @ [k]"
  shows "distinct (map f R') \<and> set (map f R') \<subseteq> set P' \<and> set P \<subseteq> set P'"
proof -
  from assms(2) have sub: "f y \<in> set P" if "y \<in> set R" for y using that by auto
  with assms(3) have k: "k \<notin> f ` set R" by auto
  from assms(4) show ?thesis
  proof
    assume "R' = R"
    with assms(1,5) sub show ?thesis by auto
  next
    assume "\<exists>x. R' = R @ [x] \<and> f x = k"
    then obtain x where "R' = R @ [x]" "f x = k" by blast
    with assms(1,5) sub k show ?thesis by auto
  qed
qed

lemma iteration_keeps_runs_distinct:
  assumes inv: "distinct (map tool_key (tool_runs st))"
      "set (map tool_key (tool_runs st)) \<subseteq> set (previousToolCalls st)"
    and it: "iteration rt a step st w = (r, st', w')"
  shows "distinct (map tool_key (tool_runs st'))
       \<and> set (map tool_key (tool_runs st')) \<subseteq> set (previousToolCalls st')
       \<and> set (previousToolCalls st) \<subseteq> set (previousToolCalls st')"
proof (cases "lm a (prompt st) w")
  case (Pair res w1)
  show ?thesis
  proof (cases res)
    case (Inl e)
    with Pair it have "st' = st\<lparr>lm_calls := Suc (lm_calls st)\<rparr>"
      by (auto simp: iteration_def prompt_def)
    then have "tool_runs st' = tool_runs st" "previousToolCalls st' = previousToolCalls st"
      by simp_all
    from runs_unchanged[OF inv this] show ?thesis .
  next
    case (Inr response)
    with Pair have lm: "lm a (prompt st) w = (Inr response, w1)" by simp
    show ?thesis
    proof (cases "extractToolCall response")
      case None
      show ?thesis
      proof (cases "has_final_answer response")
        case True
        from iteration_final[where rt=rt and step=step, OF lm None True] it
        have "st' = snd (final_answer rt a step (thought st response) response)" by simp
        with final_answer_frame[of rt a step "thought st response" response]
        have "tool_runs st' = tool_runs st" "previousToolCalls st' = previousToolCalls st"
          by (simp_all add: thought_def)
        from runs_unchanged[OF inv this] show ?thesis .
      next
        case False
        from iteration_neither[where rt=rt and step=step, OF lm None False] it
        have "tool_runs st' = tool_runs st" "previousToolCalls st' = previousToolCalls st"
          by (auto simp: thought_def)
        from runs_unchanged[OF inv this] show ?thesis .
      qed
    next
      case (Some tc)
      show ?thesis
      proof (cases "tool tc @ '':'' @ input tc \<in> set (previousToolCalls st)")
        case True
        from iteration_repeated[where rt=rt and step=step, OF lm Some True] it
        have "tool_runs st' = tool_runs st" "previousToolCalls st' = previousToolCalls st"
          by (auto simp: thought_def)
        from runs_unchanged[OF inv this] show ?thesis .
      next
        case False
        obtain obs runs w2 where ex: "executeTool rt a (tool tc) (input tc) w1 = (Inr obs, runs, w2)"
          and runs: "runs = [] \<or> runs = [(tool tc, input tc)]"
          using executeTool_result[of rt a "tool tc" "input tc" w1] by blast
        from iteration_fresh[where step=step, OF lm Some False ex] it
        have tr: "tool_runs st' = tool_runs st @ runs"
          and pv: "previousToolCalls st' = previousToolCalls st @ [tool tc @ '':'' @ input tc]"
          by (auto simp: thought_def)
        from runs tr have "tool_runs st' = tool_runs st
            \<or> (\<exists>x. tool_runs st' = tool_runs st @ [x] \<and> tool_key x = tool tc @ '':'' @ input tc)"
          by (auto simp: tool_key_def)
        from runs_extended[OF inv False this pv] show ?thesis .
      qed
    qed
  qed
qed

lemma loop_keeps_runs_distinct:
  "distinct (map tool_key (tool_runs st)) \<Longrightarrow>
   set (map tool_key (tool_runs st)) \<subseteq> set (previousToolCalls st) \<Longrightarrow>
   distinct (map tool_key (tool_runs (fst (snd (loop rt a step st w)))))"
proof (induction "nat (maxSteps a - step)" arbitrary: step st w)
  case 0
  then have "\<not> step < maxSteps a" by simp
  from loop_exceeded[OF this, of rt st w] 0 show ?case by simp
next
  case (Suc k)
  then have lt: "step < maxSteps a" by simp
  obtain r st1 w1 where it: "iteration rt a step st w = (r, st1, w1)"
    by (cases "iteration rt a step st w") auto
  from iteration_keeps_runs_distinct[OF Suc(3) Suc(4) it]
  have inv1: "distinct (map tool_key (tool_runs st1))"
    "set (map tool_key (tool_runs st1)) \<subseteq> set (previousToolCalls st1)" by simp_all
  show ?case
  proof (cases r)
    case Continue
    from Suc(2) lt have k: "k = nat (maxSteps a - (step + 1))" by simp
    from loop_continue[OF lt it[unfolded Continue]] Suc(1)[OF k inv1, of w1] show ?thesis by simp
  next
    case (Return p)
    with lt it inv1 show ?thesis by (subst loop.simps) simp
  next
    case (Throw e)
    with lt it inv1 show ?thesis by (subst loop.simps) simp
  qed
qed

text \<open>
  Claim C3. In one invocation no dedup key \<open>tool:input\<close> has its tool function run twice:
  the tool functions that \<open>forward\<close> has run have pairwise distinct keys. A reply whose key
  was issued before runs no tool function: the iteration adds the observation that the
  call was already made, leaves the world as the model's call left it, and continues
  with the next step, so it uses up one step of the budget. Every iteration keeps the
  keys issued so far, and one that runs a tool has recorded its key.
\<close>

theorem tool_runs_once_per_key:
  "distinct (map tool_key (tool_runs (fst (snd (forward rt a inps w)))))
   \<and> (\<forall>step st w response w1 tc.
         lm a (prompt st) w = (Inr response, w1) \<and> extractToolCall response = Some tc
         \<and> tool tc @ '':'' @ input tc \<in> set (previousToolCalls st) \<longrightarrow>
           iteration rt a step st w =
             (Continue, (thought st response)\<lparr>conversation := conversation (thought st response) @ already_made\<rparr>, w1)
           \<and> tool_runs ((thought st response)\<lparr>conversation := conversation (thought st response) @ already_made\<rparr>)
               = tool_runs st
           \<and> (step < maxSteps a \<longrightarrow>
                loop rt a step st w = loop rt a (step + 1)
                  ((thought st response)\<lparr>conversation := conversation (thought st response) @ already_made\<rparr>) w1))
   \<and> (\<forall>step st w r st' w'.
         iteration rt a step st w = (r, st', w') \<and> set (map tool_key (tool_runs st)) \<subseteq> set (previousToolCalls st)
         \<and> distinct (map tool_key (tool_runs st)) \<longrightarrow>
           set (previousToolCalls st) \<subseteq> set (previousToolCalls st')
           \<and> set (map tool_key (tool_runs st')) \<subseteq> set (previousToolCalls st'))"
proof (intro conjI allI impI)
  show "distinct (map tool_key (tool_runs (fst (snd (forward rt a inps w)))))"
    unfolding forward_def by (rule loop_keeps_runs_distinct) (simp_all add: start_def)
next
  fix step st w response w1 tc
  assume h: "lm a (prompt st) w = (Inr response, w1) \<and> extractToolCall response = Some tc
         \<and> tool tc @ '':'' @ input tc \<in> set (previousToolCalls st)"
  then show it: "iteration rt a step st w =
             (Continue, (thought st response)\<lparr>conversation := conversation (thought st response) @ already_made\<rparr>, w1)"
    by (simp add: iteration_repeated)
  show "tool_runs ((thought st response)\<lparr>conversation := conversation (thought st response) @ already_made\<rparr>)
               = tool_runs st"
    by (simp add: thought_def)
  show "loop rt a step st w = loop rt a (step + 1)
                  ((thought st response)\<lparr>conversation := conversation (thought st response) @ already_made\<rparr>) w1"
    if "step < maxSteps a"
    using loop_continue[OF that it] .
next
  fix step st w r st' w'
  assume h: "iteration rt a step st w = (r, st', w') \<and> set (map tool_key (tool_runs st)) \<subseteq> set (previousToolCalls st)
         \<and> distinct (map tool_key (tool_runs st))"
  then have "distinct (map tool_key (tool_runs st'))
       \<and> set (map tool_key (tool_runs st')) \<subseteq> set (previousToolCalls st')
       \<and> set (previousToolCalls st) \<subseteq> set (previousToolCalls st')"
    using iteration_keeps_runs_distinct[of st rt a step w r st' w'] by blast
  then show "set (previousToolCalls st) \<subseteq> set (previousToolCalls st')"
    and "set (map tool_key (tool_runs st')) \<subseteq> set (previousToolCalls st')" by simp_all
qed


lemma call_reply_tool_call: "extractToolCall call_reply = Some \<lparr>tool = ''add'', input = ''2,3''\<rparr>"
  by code_simp

lemma dedup_run: "tool_runs (fst (snd (forward sample_runtime dedup_agent ask 0))) = [(''add'', ''2,3'')]"
  by code_simp

theorem tool_runs_once_per_key_witness:
  "distinct (map tool_key (tool_runs (fst (snd (forward sample_runtime dedup_agent ask 0)))))
   \<and> tool_runs (fst (snd (forward sample_runtime dedup_agent ask 0))) = [(''add'', ''2,3'')]
   \<and> iteration sample_runtime dedup_agent 1 after_first_call 1 =
        (Continue, (thought after_first_call call_reply)
           \<lparr>conversation := conversation (thought after_first_call call_reply) @ already_made\<rparr>, 2)"
proof -
  note T = tool_runs_once_per_key[of sample_runtime dedup_agent ask 0]
  have lm: "lm dedup_agent (prompt after_first_call) 1 = (Inr call_reply, 2)"
    by (simp add: dedup_agent_def RespAct_constructor_def scripted_def)
  have key: "tool \<lparr>tool = ''add'', input = ''2,3''\<rparr> @ '':'' @ input \<lparr>tool = ''add'', input = ''2,3''\<rparr>
      \<in> set (previousToolCalls after_first_call)"
    by (simp add: after_first_call_def)
  from T lm call_reply_tool_call key
  have "iteration sample_runtime dedup_agent 1 after_first_call 1 =
        (Continue, (thought after_first_call call_reply)
           \<lparr>conversation := conversation (thought after_first_call call_reply) @ already_made\<rparr>, 2)"
    by blast
  with T dedup_run show ?thesis by simp
qed

subsection \<open>The final answer of a structured signature\<close>


lemma final_answer_accepted:
  assumes "signature a = ClassSignature c"
    and "RespAct_parseOutput rt a (extractFinalAnswer rt response) = Inr parsed"
    and "(k, v) \<in> set parsed" and "v \<noteq> Null"
  shows "final_answer rt a step st response =
    (Return (make_prediction (finalAnswerData parsed (extractFinalAnswer rt response)) (step + 1)), st)"
proof -
  from assms(3,4) have "\<exists>e \<in> set parsed. is_provided (snd e)"
    unfolding is_provided_def by force
  then have "filter (\<lambda>e. is_provided (snd e)) parsed \<noteq> []"
    by (simp add: filter_empty_conv)
  with assms(1,2) show ?thesis by (simp add: final_answer_def)
qed





subsection \<open>A tool that throws\<close>

lemma executeTool_never_rejects: "fst (executeTool rt a n i w) \<noteq> Inl e"
  using executeTool_result[of rt a n i w] by auto











lemma map_of_obj_set: "map_of (obj_set kvs k v) k' = (if k' = k then Some v else map_of kvs k')"
  by (induction kvs) auto

lemma map_of_without: "k' \<noteq> k \<Longrightarrow> map_of (filter (\<lambda>e. fst e \<noteq> k) kvs) k' = map_of kvs k'"
  by (induction kvs) auto

lemma finalAnswerData_keeps:
  assumes "(k0, v0) \<in> set parsed" and "v0 \<noteq> Null" and "k \<noteq> ''answer''"
  shows "map_of (finalAnswerData parsed raw) k = map_of parsed k"
proof -
  from assms(1,2) have "\<exists>e \<in> set parsed. is_provided (snd e)"
    unfolding is_provided_def by force
  then have "list_ex (\<lambda>e. is_provided (snd e)) parsed" by (simp add: list_ex_iff)
  moreover from assms(1) have "keys parsed \<noteq> []" by (auto simp: keys_def)
  ultimately show ?thesis using assms(3)
    by (simp add: finalAnswerData_def map_of_obj_set)
qed

text \<open>
  Claim C4, amended. With a class-based signature that declares the output fields
  \<open>symbol\<close> and \<open>price\<close>, a final answer that parses to a value for \<open>symbol\<close> and to none
  for \<open>price\<close> is accepted: the iteration returns the result, with \<open>symbol\<close> bound to the
  parsed value, \<open>price\<close> bound to \<open>null\<close> and \<open>steps\<close> the 1-based index of the iteration.
  (The check on the parsed fields only rejects an answer with no non-null field.)
\<close>

theorem partial_structured_answer_is_accepted:
  assumes "signature a = ClassSignature c"
    and "lm a (prompt st) w = (Inr response, w1)"
    and "extractToolCall response = None"
    and "has_final_answer response"
    and "RespAct_parseOutput rt a (extractFinalAnswer rt response) = Inr parsed"
    and "map_of parsed ''symbol'' = Some v" and "v \<noteq> Null"
    and "map_of parsed ''price'' = Some Null"
  shows "\<exists>p. iteration rt a step st w = (Return p, thought st response, w1)
           \<and> steps p = step + 1
           \<and> map_of (data p) ''symbol'' = Some v
           \<and> map_of (data p) ''price'' = Some Null
           \<and> (step < maxSteps a \<longrightarrow> loop rt a step st w = (Inr p, thought st response, w1))"
proof -
  from assms(6) have mem: "(''symbol'', v) \<in> set parsed" by (rule map_of_SomeD)
  let ?p = "make_prediction (finalAnswerData parsed (extractFinalAnswer rt response)) (step + 1)"
  from iteration_final[where rt=rt and step=step, OF assms(2,3,4)]
    final_answer_accepted[OF assms(1,5) mem assms(7), of step "thought st response"]
  have it: "iteration rt a step st w = (Return ?p, thought st response, w1)" by simp
  moreover have "steps ?p = step + 1" by (simp add: make_prediction_def)
  moreover have "map_of (data ?p) ''symbol'' = Some v"
    using finalAnswerData_keeps[OF mem assms(7), of "''symbol''"] assms(6)
    by (simp add: make_prediction_def map_of_without)
  moreover have "map_of (data ?p) ''price'' = Some Null"
    using finalAnswerData_keeps[OF mem assms(7), of "''price''"] assms(8)
    by (simp add: make_prediction_def map_of_without)
  moreover have "loop rt a step st w = (Inr ?p, thought st response, w1)" if "step < maxSteps a"
    using loop_return[OF that it] .
  ultimately show ?thesis by blast
qed

lemma partial_reply_facts:
  "extractToolCall partial_reply = None"
  "has_final_answer partial_reply"
  "RespAct_parseOutput sample_runtime (stock_agent [partial_reply]) (extractFinalAnswer sample_runtime partial_reply)
     = Inr [(''symbol'', Str ''AAPL''), (''price'', Null)]"
  by code_simp+

theorem partial_structured_answer_is_accepted_witness:
  "\<exists>p. iteration sample_runtime (stock_agent [partial_reply]) 0
          (start sample_runtime (stock_agent [partial_reply]) ask) 0
        = (Return p, thought (start sample_runtime (stock_agent [partial_reply]) ask) partial_reply, 1)
      \<and> steps p = 1 \<and> map_of (data p) ''symbol'' = Some (Str ''AAPL'')
      \<and> map_of (data p) ''price'' = Some Null"
proof -
  have sig: "signature (stock_agent [partial_reply]) = ClassSignature
     \<lparr>inputFields = [(''question'', field ''Input field: question'')],
      outputFields = [(''symbol'', field ''Ticker symbol''), (''price'', field ''Last price'')]\<rparr>"
    by (simp add: stock_agent_def RespAct_constructor_def StockQuote_def)
  have lm: "lm (stock_agent [partial_reply]) (prompt (start sample_runtime (stock_agent [partial_reply]) ask)) 0
      = (Inr partial_reply, 1)"
    by (simp add: stock_agent_def RespAct_constructor_def scripted_def)
  from partial_structured_answer_is_accepted[OF sig lm partial_reply_facts, of "Str ''AAPL''" 0]
  show ?thesis by auto
qed

text \<open>
  The claim as stated fails: with the replies \<open>Final Answer: symbol: AAPL\<close> and then a
  complete answer, \<open>forward\<close> returns on the first iteration, after one call of the model,
  with \<open>price\<close> bound to \<open>null\<close>; no corrective observation is added.
\<close>

theorem partial_structured_answer_counterexample:
  "fst (forward sample_runtime
          (stock_agent [partial_reply, ''Final Answer: symbol: AAPL\<newline>price: 189'']) ask 0)
     = Inr \<lparr>data = [(''symbol'', Str ''AAPL''), (''price'', Null), (''answer'', Str ''symbol: AAPL'')],
            steps = 1\<rparr>
   \<and> lm_calls (fst (snd (forward sample_runtime
          (stock_agent [partial_reply, ''Final Answer: symbol: AAPL\<newline>price: 189'']) ask 0))) = 1"
  by code_simp


subsection \<open>The arrow of a signature text\<close>

lemma split_go_nonempty: "split_go sep k acc s \<noteq> []"
  by (induction sep k acc s rule: split_go.induct) auto

lemma split_no_arrow:
  "\<not> includes_str s ''->'' \<Longrightarrow> split_go ''->'' 0 acc s = [rev acc @ s]"
  by (induction s arbitrary: acc) auto

lemma split_first_arrow:
  "\<not> includes_str a ''->'' \<Longrightarrow>
   split_go ''->'' 0 acc (a @ ''->'' @ rest) = (rev acc @ a) # split_go ''->'' 0 [] rest"
proof (induction a arbitrary: acc)
  case Nil
  then show ?case by simp
next
  case (Cons c a)
  then have 1: "\<not> startsWith (c # a) ''->''" and 2: "\<not> includes_str a ''->''" by auto
  from 1 have "\<not> startsWith (c # a @ ''->'' @ rest) ''->''" by (cases a) auto
  with Cons.IH[OF 2, of "c # acc"] show ?case by simp
qed

lemma split_some_arrow:
  "includes_str s ''->'' \<Longrightarrow> \<exists>x y zs. split_go ''->'' 0 acc s = x # y # zs"
proof (induction s arbitrary: acc)
  case Nil
  then show ?case by simp
next
  case (Cons c s)
  show ?case
  proof (cases "startsWith (c # s) ''->''")
    case True
    then obtain rest where "s = CHR ''>'' # rest" and "c = CHR ''-''" by (cases s) auto
    moreover obtain y zs where "split_go ''->'' 0 [] rest = y # zs"
      using split_go_nonempty[of "''->''" 0 "[]" rest] by (cases "split_go ''->'' 0 [] rest") auto
    ultimately show ?thesis by simp
  next
    case False
    with Cons.prems have "includes_str s ''->''" by auto
    from Cons.IH[OF this, of "c # acc"] False show ?thesis by auto
  qed
qed

text \<open>
  Claim C9, amended. \<open>parseStringSignature\<close> does not check the number of arrows. On a
  text without \<open>->\<close> it throws, not a parse error of its own but the \<open>TypeError\<close> of calling
  \<open>split\<close> on the absent output part. On every text with an arrow it returns a signature;
  when there is more than one arrow, the text from the second arrow on is dropped
  without an error, so the result is that of the text cut before the second arrow.
\<close>

theorem parseStringSignature_counts_no_arrows:
  "(\<not> includes_str sig ''->'' \<longrightarrow>
      parseStringSignature sig = Inl no_output_part)
   \<and> (includes_str sig ''->'' \<longrightarrow> (\<exists>p. parseStringSignature sig = Inr p))
   \<and> (\<not> includes_str a ''->'' \<and> \<not> includes_str b ''->'' \<longrightarrow>
        parseStringSignature (a @ ''->'' @ b @ ''->'' @ c) = parseStringSignature (a @ ''->'' @ b)
        \<and> (\<exists>p. parseStringSignature (a @ ''->'' @ b @ ''->'' @ c) = Inr p))"
proof (intro conjI impI)
  assume "\<not> includes_str sig ''->''"
  from split_no_arrow[OF this, of "[]"]
  show "parseStringSignature sig = Inl no_output_part"
    by (simp add: parseStringSignature_def split_str_def)
next
  assume "includes_str sig ''->''"
  from split_some_arrow[OF this, of "[]"]
  show "\<exists>p. parseStringSignature sig = Inr p"
    by (auto simp: parseStringSignature_def split_str_def Let_def)
next
  assume h: "\<not> includes_str a ''->'' \<and> \<not> includes_str b ''->''"
  then have two: "split_str (a @ ''->'' @ b) ''->'' = [a, b]"
    using split_first_arrow[of a "[]" b] split_no_arrow[of b "[]"] by (simp add: split_str_def)
  obtain y zs where "split_go ''->'' 0 [] c = y # zs"
    using split_go_nonempty[of "''->''" 0 "[]" c] by (cases "split_go ''->'' 0 [] c") auto
  with h have three: "split_str (a @ ''->'' @ b @ ''->'' @ c) ''->'' = a # b # y # zs"
    using split_first_arrow[of a "[]" "b @ ''->'' @ c"] split_first_arrow[of b "[]" c]
    by (simp add: split_str_def)
  from two three
  show "parseStringSignature (a @ ''->'' @ b @ ''->'' @ c) = parseStringSignature (a @ ''->'' @ b)"
    by (simp add: parseStringSignature_def)
  from three show "\<exists>p. parseStringSignature (a @ ''->'' @ b @ ''->'' @ c) = Inr p"
    by (simp add: parseStringSignature_def Let_def)
qed

theorem parseStringSignature_counts_no_arrows_witness:
  "parseStringSignature ''question answer'' = Inl no_output_part
   \<and> parseStringSignature (''a '' @ ''->'' @ '' b '' @ ''->'' @ '' c'') = parseStringSignature (''a '' @ ''->'' @ '' b '')
   \<and> (\<exists>p. parseStringSignature ''question -> answer'' = Inr p)"
proof -
  have 1: "\<not> includes_str ''question answer'' ''->''" by code_simp
  have 2: "includes_str ''question -> answer'' ''->''" by code_simp
  have 3: "\<not> includes_str ''a '' ''->'' \<and> \<not> includes_str '' b '' ''->''" by code_simp
  from parseStringSignature_counts_no_arrows[of "''question answer''" "''a ''" "'' b ''" "'' c''"] 1 3
    parseStringSignature_counts_no_arrows[of "''question -> answer''" "''a ''" "'' b ''" "'' c''"] 2
  show ?thesis by blast
qed

text \<open>
  The claim as stated fails: a text with two arrows is parsed without an error, into
  the signature of its first two parts.
\<close>

theorem two_arrows_counterexample:
  "parseStringSignature ''a -> b -> c'' =
     Inr \<lparr>inputs = [''a''], outputs = [''b''], types = [(''a'', ''string''), (''b'', ''string'')]\<rparr>"
  by code_simp


subsection \<open>The patterns of a plain field name\<close>

text \<open>
  For a field name of word characters the five patterns compile, each to the pattern
  that reads the name and then the compiled fixed text; none of them matches a text in
  which the name does not occur.
\<close>

lemma word_not_special:
  "is_word c \<Longrightarrow> c \<noteq> BSL \<and> c \<noteq> CHR ''['' \<and> c \<noteq> CHR ''('' \<and> c \<noteq> CHR '')'' \<and> c \<noteq> CHR ''|''
     \<and> c \<noteq> CHR ''*'' \<and> c \<noteq> CHR ''+'' \<and> c \<noteq> CHR ''?'' \<and> c \<noteq> CHR ''.'' \<and> c \<noteq> CHR ''^''
     \<and> c \<noteq> CHR ''$'' \<and> c \<noteq> CHR ''{''"
  by (auto simp: is_word_def is_digit_def code_unit_def BSL_def)

lemma lex_word: "is_word c \<Longrightarrow> lex (c # cs) = TAtom (RChar c) # lex cs"
  using word_not_special[of c] by simp

lemma lex_name:
  "list_all is_word name \<Longrightarrow> lex (name @ rest) = map (\<lambda>c. TAtom (RChar c)) name @ lex rest"
  by (induction name) (simp_all add: lex_word del: lex.simps)

lemma parse_name:
  "parse n ((k, alts, cur) # stk) (map (\<lambda>c. TAtom (RChar c)) name @ ts) =
   parse n ((k, alts, rev (map (\<lambda>c. (RChar c, Quantifiable)) name) @ cur) # stk) ts"
  by (induction name arbitrary: cur) simp_all

lemma build_name:
  "foldl (\<lambda>acc it. RSeq (fst it) acc) r (rev (map (\<lambda>c. (RChar c, Quantifiable)) name)) = lit name r"
  by (induction name) (simp_all add: lit_def)

lemma parse_standard_tail:
  "parse 0 [(KTop, [], B)] (lex standard_tail) = Inr (foldl (\<lambda>acc it. RSeq (fst it) acc) (regex_literal standard_tail) B)"
  unfolding standard_tail_def regex_literal_def compile_def
  by (simp add: bsl_def BSL_def class_escape_def atom_of_item_def is_word_def is_digit_def code_unit_def
      close_frame_def build_seq_def build_alt_def apply_quant_def)


lemma parse_alternative_tail:
  "parse 0 [(KTop, [], B)] (lex alternative_tail) = Inr (foldl (\<lambda>acc it. RSeq (fst it) acc) (regex_literal alternative_tail) B)"
  unfolding alternative_tail_def regex_literal_def compile_def
  by (simp add: bsl_def BSL_def class_escape_def atom_of_item_def is_word_def is_digit_def code_unit_def
      close_frame_def build_seq_def build_alt_def apply_quant_def)

lemma parse_flexible_tail:
  "parse 0 [(KTop, [], B)] (lex flexible_tail) = Inr (foldl (\<lambda>acc it. RSeq (fst it) acc) (regex_literal flexible_tail) B)"
  unfolding flexible_tail_def regex_literal_def compile_def
  by (simp add: bsl_def BSL_def class_escape_def atom_of_item_def is_word_def is_digit_def code_unit_def
      close_frame_def build_seq_def build_alt_def apply_quant_def)

lemma parse_same_line_tail:
  "parse 0 [(KTop, [], B)] (lex same_line_tail) = Inr (foldl (\<lambda>acc it. RSeq (fst it) acc) (regex_literal same_line_tail) B)"
  unfolding same_line_tail_def regex_literal_def compile_def
  by (simp add: bsl_def BSL_def class_escape_def atom_of_item_def is_word_def is_digit_def code_unit_def
      close_frame_def build_seq_def build_alt_def apply_quant_def)

lemma parse_loose_tail:
  "parse 0 [(KTop, [], B)] (lex loose_tail) = Inr (foldl (\<lambda>acc it. RSeq (fst it) acc) (regex_literal loose_tail) B)"
  unfolding loose_tail_def regex_literal_def compile_def
  by (simp add: bsl_def BSL_def class_escape_def atom_of_item_def is_word_def is_digit_def code_unit_def
      close_frame_def build_seq_def build_alt_def apply_quant_def)

lemma compile_labelled:
  assumes "list_all is_word name"
    and "\<And>B. parse 0 [(KTop, [], B)] (lex rest) = Inr (foldl (\<lambda>acc it. RSeq (fst it) acc) (regex_literal rest) B)"
  shows "compile (name @ rest) = Inr (lit name (regex_literal rest))"
  using assms by (simp add: compile_def lex_name parse_name build_name)

lemma compile_bounded:
  assumes "list_all is_word name"
  shows "compile (bsl ''%b'' @ name @ flexible_tail) = Inr (RSeq (RWordB True) (lit name (regex_literal flexible_tail)))"
proof -
  have "lex (bsl ''%b'' @ name @ flexible_tail) = TAssert (RWordB True) # lex (name @ flexible_tail)"
    by (simp add: bsl_def BSL_def)
  with assms show ?thesis
    by (simp add: compile_def lex_name parse_name parse_flexible_tail build_name del: lex.simps)
qed

lemma field_patterns_compile:
  assumes "list_all is_word name"
  shows "compile_all (field_patterns name) =
    Inr [(lit name (regex_literal standard_tail), flags_is),
         (lit name (regex_literal alternative_tail), flags_is),
         (RSeq (RWordB True) (lit name (regex_literal flexible_tail)), flags_i),
         (lit name (regex_literal same_line_tail), flags_i),
         (lit name (regex_literal loose_tail), flags_i)]"
  using compile_labelled[OF assms parse_standard_tail] compile_labelled[OF assms parse_alternative_tail]
    compile_labelled[OF assms parse_same_line_tail] compile_labelled[OF assms parse_loose_tail]
    compile_bounded[OF assms]
  by (simp add: field_patterns_def)


declare search.simps [simp del]

lemma lit_needs_prefix:
  "ignoreCase fl \<Longrightarrow> \<not> ci_prefix name s \<Longrightarrow> matches fl (lit name r) (p, s, caps) = []"
proof (induction name arbitrary: p s)
  case Nil
  then show ?case by simp
next
  case (Cons a name)
  show ?case
  proof (cases s)
    case Nil
    then show ?thesis by (simp add: lit_def step_char_def)
  next
    case (Cons c cs)
    show ?thesis
    proof (cases "to_upper a = to_upper c")
      case True
      with Cons.prems Cons have "\<not> ci_prefix name cs" by simp
      from Cons.IH[OF Cons.prems(1) this, of "Some c"] Cons True Cons.prems(1)
      show ?thesis by (simp add: lit_def step_char_def char_match_def)
    next
      case False
      with Cons Cons.prems(1) show ?thesis by (simp add: lit_def step_char_def char_match_def)
    qed
  qed
qed

lemma search_needs_label:
  assumes "\<And>p s. \<not> ci_prefix name s \<Longrightarrow> matches fl re (p, s, []) = []"
  shows "\<not> ci_includes reply name \<Longrightarrow> search fl re p reply = None"
proof (induction reply arbitrary: p)
  case Nil
  then have "\<not> ci_prefix name []" by (cases name) auto
  from assms[OF this, of p] show ?case by (subst search.simps) simp
next
  case (Cons c cs)
  then have 1: "\<not> ci_prefix name (c # cs)" and 2: "\<not> ci_includes cs name" by auto
  from assms[OF 1, of p] Cons.IH[OF 2, of "Some c"] show ?case by (subst search.simps) simp
qed

lemma bounded_needs_prefix:
  "ignoreCase fl \<Longrightarrow> \<not> ci_prefix name s \<Longrightarrow> matches fl (RSeq (RWordB b) (lit name r)) (p, s, caps) = []"
  by (simp add: lit_needs_prefix)

lemma candidate_needs_label:
  assumes "\<And>p s. \<not> ci_prefix name s \<Longrightarrow> matches fl re (p, s, []) = []"
    and "\<not> ci_includes reply name"
  shows "candidate reply (re, fl) = None"
  using search_needs_label[of name fl re reply None, OF assms] by (simp add: candidate_def str_match_def)

lemma no_label_no_candidate:
  assumes "list_all is_word name" and "\<not> ci_includes reply name"
  shows "\<exists>ps. compile_all (field_patterns name) = Inr ps \<and> first_candidate reply ps = None"
proof -
  have i: "ignoreCase flags_is" "ignoreCase flags_i" by (simp_all add: flags_is_def flags_i_def)
  note c = candidate_needs_label[OF _ assms(2)]
  have "first_candidate reply
      [(lit name (regex_literal standard_tail), flags_is),
       (lit name (regex_literal alternative_tail), flags_is),
       (RSeq (RWordB True) (lit name (regex_literal flexible_tail)), flags_i),
       (lit name (regex_literal same_line_tail), flags_i),
       (lit name (regex_literal loose_tail), flags_i)] = None"
    using c[of flags_is "lit name (regex_literal standard_tail)", OF lit_needs_prefix[OF i(1)]]
      c[of flags_is "lit name (regex_literal alternative_tail)", OF lit_needs_prefix[OF i(1)]]
      c[of flags_i "RSeq (RWordB True) (lit name (regex_literal flexible_tail))", OF bounded_needs_prefix[OF i(2)]]
      c[of flags_i "lit name (regex_literal same_line_tail)", OF lit_needs_prefix[OF i(2)]]
      c[of flags_i "lit name (regex_literal loose_tail)", OF lit_needs_prefix[OF i(2)]]
    by simp
  with field_patterns_compile[OF assms(1)] show ?thesis by simp
qed

lemma extractFieldValue_total:
  "list_all is_word name \<Longrightarrow> \<exists>v. extractFieldValue rt reply name ty = Inr v"
  using field_patterns_compile[of name] by (simp add: extractFieldValue_def)

lemma extractFieldValue_needs_label:
  assumes "list_all is_word name" and "name \<noteq> ''answer''" and "\<not> ci_includes reply name"
  shows "extractFieldValue rt reply name ty = Inr Null"
  using no_label_no_candidate[OF assms(1,3)] assms(2) by (auto simp: extractFieldValue_def)

subsection \<open>Extracting a field\<close>

text \<open>
  Claim C7, amended. The shortcut for a plain reply belongs to the field named \<open>answer\<close>,
  whether or not it is the only output field: for a text with no colon and no line
  break whose trimmed, artifact-stripped form is not empty, the value of \<open>answer\<close> is
  that form after type coercion, and the label need not appear in the text. A field of
  any other name has no shortcut: its value comes from the five label patterns alone,
  and for a name of word characters it is \<open>null\<close> when the name does not occur in the
  text.
\<close>

theorem answer_shortcut:
  "(\<not> includes_str reply '':'' \<and> \<not> includes_str reply [CHR 0x0A] \<and> strip_artifacts (trim reply) \<noteq> [] \<longrightarrow>
      extractFieldValue rt reply ''answer'' ty = Inr (convertValue rt (strip_artifacts (trim reply)) ty))
   \<and> (fieldName \<noteq> ''answer'' \<longrightarrow>
        extractFieldValue rt reply fieldName ty =
          (case compile_all (field_patterns fieldName) of
             Inl e \<Rightarrow> Inl e
           | Inr ps \<Rightarrow> Inr (case first_candidate reply ps of
                              Some v \<Rightarrow> convertValue rt v ty
                            | None \<Rightarrow> Null)))
   \<and> (fieldName \<noteq> ''answer'' \<and> list_all is_word fieldName \<and> \<not> ci_includes reply fieldName \<longrightarrow>
        extractFieldValue rt reply fieldName ty = Inr Null)"
  using extractFieldValue_needs_label[of fieldName reply rt ty]
  by (simp add: extractFieldValue_def)

lemma plain_reply_facts:
  "\<not> includes_str '' **Paris** '' '':''"
  "\<not> includes_str '' **Paris** '' [CHR 0x0A]"
  "strip_artifacts (trim '' **Paris** '') \<noteq> []"
  "list_all is_word ''result''"
  "\<not> ci_includes '' **Paris** '' ''result''"
  "''result'' \<noteq> ''answer''"
  by code_simp+

lemma plain_reply_value:
  "convertValue sample_runtime (strip_artifacts (trim '' **Paris** '')) None = Str ''Paris''"
  by code_simp

theorem answer_shortcut_witness:
  "extractFieldValue sample_runtime '' **Paris** '' ''answer'' None = Inr (Str ''Paris'')
   \<and> extractFieldValue sample_runtime '' **Paris** '' ''result'' None = Inr Null"
proof -
  from answer_shortcut[of "'' **Paris** ''" sample_runtime None "''result''"] plain_reply_facts
  have "extractFieldValue sample_runtime '' **Paris** '' ''answer'' None
      = Inr (convertValue sample_runtime (strip_artifacts (trim '' **Paris** '')) None)"
    and "extractFieldValue sample_runtime '' **Paris** '' ''result'' None = Inr Null"
    by blast+
  then show ?thesis by (simp only: plain_reply_value)
qed

text \<open>
  The claim as stated fails: for the signature \<open>question -> result\<close>, whose only output
  field is not named \<open>answer\<close>, the plain reply \<open>Paris\<close> gives \<open>null\<close>, not \<open>Paris\<close>.
\<close>

theorem sole_field_counterexample:
  "parseOutput sample_runtime (StringSignature ''question -> result'') ''Paris'' = Inr [(''result'', Null)]
   \<and> extractFieldValue sample_runtime ''Paris'' ''result'' (Some ''string'') = Inr Null"
  by code_simp

subsection \<open>The keys of a parsed reply\<close>

lemma keys_obj_set: "set (keys (obj_set kvs k v)) = insert k (set (keys kvs))"
proof (induction kvs)
  case Nil
  then show ?case by (simp add: keys_def)
next
  case (Cons a kvs)
  obtain k' v' where a: "a = (k', v')" by (cases a)
  show ?case
  proof (cases "k' = k")
    case True
    with a show ?thesis by (simp add: keys_def)
  next
    case False
    with a Cons show ?thesis by (simp add: keys_def insert_commute)
  qed
qed

lemma extract_fields_keys:
  "extract_fields rt raw acc fs = Inr res \<Longrightarrow>
   set (keys res) = set (keys acc) \<union> (set (map fst fs) - {''__proto__''})"
proof (induction fs arbitrary: acc)
  case Nil
  then show ?case by simp
next
  case (Cons f fs)
  obtain key ty where f: "f = (key, ty)" by (cases f)
  with Cons.prems obtain v where v: "extractFieldValue rt raw key ty = Inr v"
    and rest: "extract_fields rt raw (obj_assign acc key v) fs = Inr res"
    by (auto split: sum.splits)
  show ?case
  proof (cases "key = ''__proto__''")
    case True
    with Cons.IH[OF rest] f show ?thesis by (auto simp: obj_assign_def)
  next
    case False
    with Cons.IH[OF rest] f show ?thesis by (auto simp: obj_assign_def keys_obj_set)
  qed
qed

lemma parseOutput_keys:
  "parseOutput rt (ClassSignature c) raw = Inr res \<Longrightarrow>
     set (keys res) = set (keys (outputFields c)) - {''__proto__''}"
  "parseStringSignature s = Inr p \<Longrightarrow> parseOutput rt (StringSignature s) raw = Inr res \<Longrightarrow>
     set (keys res) = set (outputs p) - {''__proto__''}"
proof -
  show "set (keys res) = set (keys (outputFields c)) - {''__proto__''}"
    if "parseOutput rt (ClassSignature c) raw = Inr res"
    using extract_fields_keys[of rt raw "[]" "map (\<lambda>e. (fst e, field_type (snd e))) (outputFields c)" res] that
    by (simp add: parseOutput_def parseOutputFromClass_def keys_def image_image)
  show "set (keys res) = set (outputs p) - {''__proto__''}"
    if "parseStringSignature s = Inr p" "parseOutput rt (StringSignature s) raw = Inr res"
    using extract_fields_keys[of rt raw "[]"
        "map (\<lambda>outputKey. (outputKey, map_of (types p) outputKey)) (outputs p)" res] that
    by (simp add: parseOutput_def parseOutputFromString_def keys_def image_image)
qed

lemma extract_fields_total:
  "\<forall>f \<in> set fs. list_all is_word (fst f) \<Longrightarrow> \<exists>res. extract_fields rt raw acc fs = Inr res"
proof (induction fs arbitrary: acc)
  case Nil
  then show ?case by simp
next
  case (Cons f fs)
  obtain key ty where f: "f = (key, ty)" by (cases f)
  with Cons.prems have "list_all is_word key" by simp
  from extractFieldValue_total[OF this, of rt raw ty] obtain v
    where "extractFieldValue rt raw key ty = Inr v" by blast
  with Cons.IH[of "obj_assign acc key v"] Cons.prems f show ?case by simp
qed

lemma parseOutput_plain_names:
  assumes "\<forall>name \<in> set (keys (outputFields c)). list_all is_word name"
  shows "\<exists>res. parseOutput rt (ClassSignature c) raw = Inr res
           \<and> set (keys res) = set (keys (outputFields c)) - {''__proto__''}"
proof -
  from assms have "\<forall>f \<in> set (map (\<lambda>e. (fst e, field_type (snd e))) (outputFields c)). list_all is_word (fst f)"
    by (simp add: keys_def)
  from extract_fields_total[OF this, of rt raw "[]"] obtain res
    where "parseOutput rt (ClassSignature c) raw = Inr res"
    by (auto simp: parseOutput_def parseOutputFromClass_def)
  with parseOutput_keys(1)[OF this] show ?thesis by simp
qed

lemma unescaped_name_patterns:
  "compile_all (field_patterns ''total(usd'') = Inl (SyntaxError ''Unterminated group'')"
  by code_simp

lemma unescaped_name_signature:
  "parseStringSignature ''question -> total(usd'' =
     Inr \<lparr>inputs = [''question''], outputs = [''total(usd''],
          types = [(''question'', ''string''), (''total(usd'', ''string'')]\<rparr>"
  by code_simp

lemma unescaped_name_field:
  "extractFieldValue rt text ''total(usd'' ty = Inl (SyntaxError ''Unterminated group'')"
  by (simp add: extractFieldValue_def unescaped_name_patterns)

text \<open>
  Claim C6. The claim holds for field names of word characters (\<open>parseOutput_plain_names\<close>,
  up to the key \<open>__proto__\<close>); it fails for a name with a character that is special in a
  pattern, because \<open>extractFieldValue\<close> pastes the
  name into its patterns without escaping it. For the signature
  \<open>question -> total(usd\<close> the first pattern has an unclosed group, \<open>new RegExp\<close> throws a
  \<open>SyntaxError\<close>, and \<open>parseOutput\<close> throws it on, whatever the reply and the runtime.
\<close>

theorem parseOutput_throws_on_unescaped_name:
  "parseOutput rt (StringSignature ''question -> total(usd'') ''total(usd: 5''
     = Inl (SyntaxError ''Unterminated group'')"
  by (simp add: parseOutput_def parseOutputFromString_def unescaped_name_signature unescaped_name_field)


lemma proto_key_is_omitted:
  "parseOutput sample_runtime (StringSignature ''question -> __proto__'') ''no match'' = Inr []"
  by code_simp

end
